theory Spec2Isabelle
  imports Complex_Main
begin

section \<open>The simulation core of the cell-eating server (src/server.js)\<close>

text \<open>
  A shallow embedding of \<^verbatim>\<open>src/server.js\<close>. JavaScript numbers are modelled as
  the real numbers: every \<^verbatim>\<open>+\<close>, \<^verbatim>\<open>*\<close>, \<^verbatim>\<open>/\<close>, \<^verbatim>\<open>Math.sqrt\<close> is the exact operation, so
  rounding, NaN and the infinities are outside the model. Where JavaScript divides by zero
  HOL returns 0; the program divides by \<open>pi\<close>, by the number of pieces of an explosion
  (at least 8), by a length that \<^verbatim>\<open>|| 1\<close> has made non-zero, by the distance to the mouse
  point once it exceeds half the radius, and by \<open>sqrt (radius / 40)\<close>. For a positive
  radius none of these is zero, and every radius the program creates is positive.

  Objects that the program mutates through several references (cells, held by their
  owner's array, by the per-tick snapshot and by the quadtree) live in an explicit store
  and are named by references. \<^verbatim>\<open>Math.random()\<close> is a stream \<open>rnd\<close> read at a
  cursor that the world carries.
\<close>

subsection \<open>CONFIG\<close>

definition TICK_RATE :: real where "TICK_RATE = 20"
definition WORLD_SIZE :: real where "WORLD_SIZE = 6000"
definition BASE_SPEED :: real where "BASE_SPEED = 400"
definition SPLIT_SPEED :: real where "SPLIT_SPEED = 400"
definition MERGE_TIME :: real where "MERGE_TIME = 10"
definition FOOD_COUNT :: nat where "FOOD_COUNT = 60"
definition FOOD_RADIUS :: real where "FOOD_RADIUS = 15"
definition VIRUS_COUNT :: nat where "VIRUS_COUNT = 20"
definition VIRUS_RADIUS :: real where "VIRUS_RADIUS = 60"
definition MAX_VIRUS_PIECES :: int where "MAX_VIRUS_PIECES = 16"
definition BOT_COUNT :: nat where "BOT_COUNT = 20"
definition TARGET_SPEED_MULTIPLIER :: real where "TARGET_SPEED_MULTIPLIER = 1.0"

subsection \<open>HELPERS\<close>

definition cellAreaFromRadius :: "real \<Rightarrow> real" where
  "cellAreaFromRadius r = pi * r * r"

definition radiusFromArea :: "real \<Rightarrow> real" where
  "radiusFromArea a = sqrt (a / pi)"

text \<open>\<^verbatim>\<open>Math.hypot(dx, dy) || 1\<close>: the length, or 1 when the length is zero.\<close>

definition hypot :: "real \<Rightarrow> real \<Rightarrow> real" where
  "hypot dx dy = sqrt (dx * dx + dy * dy)"

definition hypotOr1 :: "real \<Rightarrow> real \<Rightarrow> real" where
  "hypotOr1 dx dy = (if hypot dx dy = 0 then 1 else hypot dx dy)"

text \<open>\<^verbatim>\<open>randPos()\<close> applied to one value of \<^verbatim>\<open>Math.random()\<close>.\<close>

definition randPos :: "real \<Rightarrow> real" where
  "randPos u = (u - 0.5) * WORLD_SIZE"

subsection \<open>QUADTREE\<close>

text \<open>
  A node's \<^verbatim>\<open>boundary\<close> is \<^verbatim>\<open>{x, y, w, h}\<close>: centre, width and height. A node
  with \<^verbatim>\<open>divided = false\<close> is a \<open>Leaf\<close>; a divided one is a \<open>Quad\<close> with
  its four children. The tree holds references to objects; \<open>pos\<close> reads the
  \<^verbatim>\<open>x\<close> and \<^verbatim>\<open>y\<close> fields of the object behind a reference.
\<close>

record box =
  b_x :: real
  b_y :: real
  b_w :: real
  b_h :: real

datatype 'a quadtree =
    Leaf (boundary: box) (capacity: nat) (depth: nat) (maxDepth: nat) (points: "'a list")
  | Quad (boundary: box) (capacity: nat) (depth: nat) (maxDepth: nat) (points: "'a list")
      (nw: "'a quadtree") (ne: "'a quadtree") (sw: "'a quadtree") (se: "'a quadtree")

text \<open>The constructor: \<^verbatim>\<open>new QuadTree(boundary, capacity, depth, maxDepth)\<close>.\<close>

definition newQuadTree :: "box \<Rightarrow> nat \<Rightarrow> nat \<Rightarrow> nat \<Rightarrow> 'a quadtree" where
  "newQuadTree b cap d md = Leaf b cap d md []"

definition divided :: "'a quadtree \<Rightarrow> bool" where
  "divided t = (case t of Leaf _ _ _ _ _ \<Rightarrow> False | Quad _ _ _ _ _ _ _ _ _ \<Rightarrow> True)"

definition subdivide :: "'a quadtree \<Rightarrow> 'a quadtree" where
  "subdivide t =
     (let x = b_x (boundary t); y = b_y (boundary t);
          hw = b_w (boundary t) / 2; hh = b_h (boundary t) / 2
      in Quad (boundary t) (capacity t) (depth t) (maxDepth t) (points t)
           (newQuadTree \<lparr>b_x = x - hw / 2, b_y = y - hh / 2, b_w = hw, b_h = hh\<rparr>
              (capacity t) (depth t + 1) (maxDepth t))
           (newQuadTree \<lparr>b_x = x + hw / 2, b_y = y - hh / 2, b_w = hw, b_h = hh\<rparr>
              (capacity t) (depth t + 1) (maxDepth t))
           (newQuadTree \<lparr>b_x = x - hw / 2, b_y = y + hh / 2, b_w = hw, b_h = hh\<rparr>
              (capacity t) (depth t + 1) (maxDepth t))
           (newQuadTree \<lparr>b_x = x + hw / 2, b_y = y + hh / 2, b_w = hw, b_h = hh\<rparr>
              (capacity t) (depth t + 1) (maxDepth t)))"

text \<open>The rejection test at the head of \<^verbatim>\<open>insert\<close>.\<close>

definition outsideBox :: "box \<Rightarrow> real \<times> real \<Rightarrow> bool" where
  "outsideBox b p =
     (fst p < b_x b - b_w b / 2 \<or> fst p > b_x b + b_w b / 2 \<or>
      snd p < b_y b - b_h b / 2 \<or> snd p > b_y b + b_h b / 2)"

text \<open>\<^verbatim>\<open>this.points.push(obj)\<close>.\<close>

definition pushPoint :: "'a quadtree \<Rightarrow> 'a \<Rightarrow> 'a quadtree" where
  "pushPoint t obj =
     (case t of
        Leaf b c d m ps \<Rightarrow> Leaf b c d m (ps @ [obj])
      | Quad b c d m ps q1 q2 q3 q4 \<Rightarrow> Quad b c d m (ps @ [obj]) q1 q2 q3 q4)"

text \<open>A termination measure for \<open>insert\<close>: a leaf can still be split
  \<open>maxDepth - depth\<close> times.\<close>

fun qtMeasure :: "'a quadtree \<Rightarrow> nat" where
  "qtMeasure (Leaf b c d m ps) = Suc (m - d)"
| "qtMeasure (Quad b c d m ps q1 q2 q3 q4) =
     Suc (qtMeasure q1 + qtMeasure q2 + qtMeasure q3 + qtMeasure q4)"

text \<open>
  \<^verbatim>\<open>insert(obj)\<close> returns the boolean and the tree as the call leaves it: a call
  that returns \<^verbatim>\<open>false\<close> after subdividing has still subdivided. The four
  children are tried in the order NW, NE, SW, SE, and \<^verbatim>\<open>||\<close> stops at the first
  that accepts.
\<close>

function insert :: "('a \<Rightarrow> real \<times> real) \<Rightarrow> 'a quadtree \<Rightarrow> 'a \<Rightarrow> bool \<times> 'a quadtree" where
  "insert pos t obj =
     (if outsideBox (boundary t) (pos obj) then (False, t)
      else if length (points t) < capacity t \<or> depth t \<ge> maxDepth t
        then (True, pushPoint t obj)
      else
        (let t' = (if divided t then t else subdivide t);
             r1 = insert pos (nw t') obj
         in if fst r1
            then (True, Quad (boundary t') (capacity t') (depth t') (maxDepth t') (points t')
                          (snd r1) (ne t') (sw t') (se t'))
            else
              (let r2 = insert pos (ne t') obj
               in if fst r2
                  then (True, Quad (boundary t') (capacity t') (depth t') (maxDepth t')
                                (points t') (snd r1) (snd r2) (sw t') (se t'))
                  else
                    (let r3 = insert pos (sw t') obj
                     in if fst r3
                        then (True, Quad (boundary t') (capacity t') (depth t') (maxDepth t')
                                      (points t') (snd r1) (snd r2) (snd r3) (se t'))
                        else
                          (let r4 = insert pos (se t') obj
                           in (fst r4, Quad (boundary t') (capacity t') (depth t')
                                         (maxDepth t') (points t')
                                         (snd r1) (snd r2) (snd r3) (snd r4)))))))"
  by pat_completeness auto
termination
proof (relation "measure (\<lambda>(pos, t, obj). qtMeasure t)", goal_cases)
  case 1
  show ?case by simp
next
  case (2 pos t obj t')
  then show ?case
    by (cases t) (auto simp: divided_def subdivide_def newQuadTree_def Let_def)
next
  case (3 pos t obj t' r1)
  then show ?case
    by (cases t) (auto simp: divided_def subdivide_def newQuadTree_def Let_def)
next
  case (4 pos t obj t' r1 r2)
  then show ?case
    by (cases t) (auto simp: divided_def subdivide_def newQuadTree_def Let_def)
next
  case (5 pos t obj t' r1 r2 r3)
  then show ?case
    by (cases t) (auto simp: divided_def subdivide_def newQuadTree_def Let_def)
qed

declare insert.simps [simp del]

text \<open>The test of \<^verbatim>\<open>queryRange\<close> that the range misses the node.\<close>

definition rangeMisses :: "box \<Rightarrow> box \<Rightarrow> bool" where
  "rangeMisses rg b =
     (b_x rg - b_w rg / 2 > b_x b + b_w b / 2 \<or>
      b_x rg + b_w rg / 2 < b_x b - b_w b / 2 \<or>
      b_y rg - b_h rg / 2 > b_y b + b_h b / 2 \<or>
      b_y rg + b_h rg / 2 < b_y b - b_h b / 2)"

text \<open>The test of \<^verbatim>\<open>queryRange\<close> that a point lies in the range.\<close>

definition inRange :: "box \<Rightarrow> real \<times> real \<Rightarrow> bool" where
  "inRange rg p =
     (fst p \<ge> b_x rg - b_w rg / 2 \<and> fst p \<le> b_x rg + b_w rg / 2 \<and>
      snd p \<ge> b_y rg - b_h rg / 2 \<and> snd p \<le> b_y rg + b_h rg / 2)"

fun queryRange :: "('a \<Rightarrow> real \<times> real) \<Rightarrow> 'a quadtree \<Rightarrow> box \<Rightarrow> 'a list \<Rightarrow> 'a list" where
  "queryRange pos (Leaf b c d m ps) rg found =
     (if rangeMisses rg b then found
      else found @ filter (\<lambda>p. inRange rg (pos p)) ps)"
| "queryRange pos (Quad b c d m ps q1 q2 q3 q4) rg found =
     (if rangeMisses rg b then found
      else queryRange pos q4 rg
             (queryRange pos q3 rg
               (queryRange pos q2 rg
                 (queryRange pos q1 rg
                   (found @ filter (\<lambda>p. inRange rg (pos p)) ps)))))"

text \<open>A build loop \<^verbatim>\<open>for (const o of objs) qt.insert(o)\<close>: the results of
  \<^verbatim>\<open>insert\<close> are dropped by the callers; \<open>insertAll\<close> also collects the
  objects whose call returned \<^verbatim>\<open>true\<close>.\<close>

fun insertAll :: "('a \<Rightarrow> real \<times> real) \<Rightarrow> 'a quadtree \<Rightarrow> 'a list \<Rightarrow> 'a quadtree \<times> 'a list" where
  "insertAll pos t [] = (t, [])"
| "insertAll pos t (obj # objs) =
     (let r = insert pos t obj; rest = insertAll pos (snd r) objs
      in (fst rest, if fst r then obj # snd rest else snd rest))"

subsection \<open>STATE\<close>

text \<open>
  A cell object \<^verbatim>\<open>{x, y, radius, vx, vy, mergeTimer}\<close>. Cells are mutated in place
  and shared, so the world keeps them in \<open>cellStore\<close> and every array of cells is a
  list of references into it.
\<close>

record cell =
  c_x :: real
  c_y :: real
  radius :: real
  c_vx :: real
  c_vy :: real
  mergeTimer :: real

text \<open>
  A player or bot. \<open>cells\<close> is the array \<^verbatim>\<open>player.cells\<close>, as references.
  A bot has no \<^verbatim>\<open>mouseX\<close>, \<^verbatim>\<open>mouseY\<close>, \<^verbatim>\<open>hasMouseTarget\<close> properties: reading
  \<^verbatim>\<open>hasMouseTarget\<close> gives \<^verbatim>\<open>undefined\<close>, which is falsy, modelled as \<open>False\<close>.
\<close>

record player =
  p_id :: nat
  name :: string
  skin :: real
  p_color :: "real list"
  isBot :: bool
  cells :: "nat list"
  inputDir :: "real \<times> real"
  mouseX :: real
  mouseY :: real
  hasMouseTarget :: bool

text \<open>A food pellet; \<open>dead\<close> is the property the food pass sets (absent, hence
  falsy, on a fresh pellet).\<close>

record food =
  f_id :: nat
  f_x :: real
  f_y :: real
  f_radius :: real
  f_color :: "real list"
  f_vx :: real
  f_vy :: real
  isEjected :: bool
  dead :: bool

record virus =
  v_id :: nat
  v_x :: real
  v_y :: real
  v_radius :: real

text \<open>
  The module's state. \<open>players\<close> is the \<^verbatim>\<open>players\<close> map in insertion order (the
  order of \<^verbatim>\<open>players.values()\<close>); a player object is named by its position in this
  list while a tick runs, since a tick neither adds nor removes players. \<open>nextCell\<close> is
  the next unused cell reference and \<open>cursor\<close> the number of values of
  \<^verbatim>\<open>Math.random()\<close> drawn so far.
\<close>

record world =
  players :: "player list"
  foods :: "food list"
  viruses :: "virus list"
  cellStore :: "nat \<Rightarrow> cell"
  nextCell :: nat
  nextPlayerId :: nat
  nextFoodId :: nat
  nextVirusId :: nat
  cursor :: nat

subsection \<open>WORLD GEN\<close>

text \<open>
  \<^verbatim>\<open>createFood(isEjected, x, y, vx, vy)\<close>. A missing \<^verbatim>\<open>x\<close> or \<^verbatim>\<open>y\<close> is
  \<open>None\<close> and takes its default \<^verbatim>\<open>randPos()\<close>; the defaults are evaluated first,
  then \<^verbatim>\<open>nextFoodId++\<close>, then the three random colour components of a pellet that
  is not ejected.
\<close>

definition createFood ::
  "(nat \<Rightarrow> real) \<Rightarrow> world \<Rightarrow> bool \<Rightarrow> real option \<Rightarrow> real option \<Rightarrow> real \<Rightarrow> real \<Rightarrow> food \<times> world" where
  "createFood rnd w isEj xo yo fvx fvy =
     (let k0 = cursor w;
          px = (case xo of None \<Rightarrow> randPos (rnd k0) | Some v \<Rightarrow> v);
          k1 = (case xo of None \<Rightarrow> k0 + 1 | Some v \<Rightarrow> k0);
          py = (case yo of None \<Rightarrow> randPos (rnd k1) | Some v \<Rightarrow> v);
          k2 = (case yo of None \<Rightarrow> k1 + 1 | Some v \<Rightarrow> k1);
          col = (if isEj then [1, 1, 1] else [rnd k2, rnd (k2 + 1), rnd (k2 + 2)]);
          k3 = (if isEj then k2 else k2 + 3)
      in (\<lparr>f_id = nextFoodId w, f_x = px, f_y = py, f_radius = FOOD_RADIUS, f_color = col,
           f_vx = fvx, f_vy = fvy, isEjected = isEj, dead = False\<rparr>,
          w\<lparr>nextFoodId := nextFoodId w + 1, cursor := k3\<rparr>))"

text \<open>\<^verbatim>\<open>foods.push(createFood(false))\<close>.\<close>

definition pushRandomFood :: "(nat \<Rightarrow> real) \<Rightarrow> world \<Rightarrow> world" where
  "pushRandomFood rnd w =
     (let r = createFood rnd w False None None 0 0
      in (snd r)\<lparr>foods := foods (snd r) @ [fst r]\<rparr>)"

text \<open>\<^verbatim>\<open>createVirus()\<close> with both defaults, pushed onto \<^verbatim>\<open>viruses\<close>.\<close>

definition pushRandomVirus :: "(nat \<Rightarrow> real) \<Rightarrow> world \<Rightarrow> world" where
  "pushRandomVirus rnd w =
     w\<lparr>viruses := viruses w @
          [\<lparr>v_id = nextVirusId w, v_x = randPos (rnd (cursor w)),
            v_y = randPos (rnd (cursor w + 1)), v_radius = VIRUS_RADIUS\<rparr>],
       nextVirusId := nextVirusId w + 1, cursor := cursor w + 2\<rparr>"

definition initWorld :: "(nat \<Rightarrow> real) \<Rightarrow> world \<Rightarrow> world" where
  "initWorld rnd w =
     ((pushRandomVirus rnd) ^^ VIRUS_COUNT)
       (((pushRandomFood rnd) ^^ FOOD_COUNT) (w\<lparr>foods := [], viruses := []\<rparr>))"

subsection \<open>PLAYERS\<close>

text \<open>The decimal digits of a number, for \<^verbatim>\<open>"Player " + id\<close>.\<close>

fun showNat :: "nat \<Rightarrow> string" where
  "showNat n =
     (if n < 10 then [char_of (48 + n)]
      else showNat (n div 10) @ [char_of (48 + n mod 10)])"

declare showNat.simps [simp del]

text \<open>
  \<^verbatim>\<open>createPlayer(id)\<close> followed by \<^verbatim>\<open>players.set(id, player)\<close>, as the connection
  handler does with \<^verbatim>\<open>id = nextPlayerId++\<close>. The object literal draws the three
  colour components, then the cell's \<^verbatim>\<open>x\<close> and \<^verbatim>\<open>y\<close>.
\<close>

definition connect :: "(nat \<Rightarrow> real) \<Rightarrow> world \<Rightarrow> world" where
  "connect rnd w =
     (let k = cursor w; r = nextCell w;
          c = \<lparr>c_x = randPos (rnd (k + 3)), c_y = randPos (rnd (k + 4)), radius = 40,
               c_vx = 0, c_vy = 0, mergeTimer = MERGE_TIME\<rparr>;
          p = \<lparr>p_id = nextPlayerId w, name = ''Player '' @ showNat (nextPlayerId w), skin = -1,
               p_color = [rnd k, rnd (k + 1), rnd (k + 2)], isBot = False, cells = [r],
               inputDir = (0, 0), mouseX = 0, mouseY = 0, hasMouseTarget = False\<rparr>
      in w\<lparr>players := players w @ [p], cellStore := (cellStore w)(r := c),
           nextCell := r + 1, nextPlayerId := nextPlayerId w + 1, cursor := k + 5\<rparr>)"

subsection \<open>GAME LOGIC: split and eject\<close>

text \<open>
  The body of the loop of \<^verbatim>\<open>splitPlayer\<close> for one cell reference \<open>r\<close>: the
  state is the store, the next free reference and \<^verbatim>\<open>newCells\<close>.
\<close>

definition splitCell ::
  "real \<times> real \<Rightarrow> nat \<Rightarrow> (nat \<Rightarrow> cell) \<times> nat \<times> nat list \<Rightarrow> (nat \<Rightarrow> cell) \<times> nat \<times> nat list" where
  "splitCell dir r s =
     (case s of (st, nxt, newCells) \<Rightarrow>
       (let dx = fst dir; dy = snd dir; len = hypotOr1 dx dy; c = st r
        in if radius c < 10 then (st, nxt, newCells)
           else
             (let newRadius = radius c * 0.5;
                  spacing = newRadius * 2.5;
                  c' = c\<lparr>radius := newRadius, mergeTimer := MERGE_TIME,
                         c_x := c_x c - (dx / len) * spacing * 0.3,
                         c_y := c_y c - (dy / len) * spacing * 0.3\<rparr>;
                  n = \<lparr>c_x = c_x c' + (dx / len) * spacing,
                       c_y = c_y c' + (dy / len) * spacing,
                       radius = newRadius,
                       c_vx = (dx / len) * SPLIT_SPEED,
                       c_vy = (dy / len) * SPLIT_SPEED,
                       mergeTimer = MERGE_TIME\<rparr>
              in (st(r := c', nxt := n), nxt + 1, newCells @ [nxt]))))"

text \<open>\<^verbatim>\<open>splitPlayer(player)\<close> for the player at position \<open>i\<close> of the registry.\<close>

definition splitPlayer :: "nat \<Rightarrow> world \<Rightarrow> world" where
  "splitPlayer i w =
     (let p = players w ! i;
          s = fold (splitCell (inputDir p)) (cells p) (cellStore w, nextCell w, [])
      in case s of (st, nxt, newCells) \<Rightarrow>
           w\<lparr>players :=
               (if length newCells > 0
                then (players w)[i := p\<lparr>cells := cells p @ newCells\<rparr>]
                else players w),
             cellStore := st, nextCell := nxt\<rparr>)"

text \<open>
  The body of the loop of \<^verbatim>\<open>ejectMass\<close> for one cell reference. The ejected pellet
  is created with all five arguments given, so it draws no random value.
\<close>

definition ejectCell :: "(nat \<Rightarrow> real) \<Rightarrow> real \<times> real \<Rightarrow> nat \<Rightarrow> world \<Rightarrow> world" where
  "ejectCell rnd dir r w =
     (let dx = fst dir; dy = snd dir; len = hypotOr1 dx dy; c = cellStore w r
      in if radius c < 35 then w
         else
           (let area = cellAreaFromRadius (radius c);
                ejectArea = cellAreaFromRadius FOOD_RADIUS * 2;
                newArea = area - ejectArea
            in if newArea \<le> 0 then w
               else
                 (let c' = c\<lparr>radius := radiusFromArea newArea\<rparr>;
                      speed = 900;
                      fx = c_x c' + (dx / len) * (radius c' + FOOD_RADIUS + 2);
                      fy = c_y c' + (dy / len) * (radius c' + FOOD_RADIUS + 2);
                      w1 = w\<lparr>cellStore := (cellStore w)(r := c')\<rparr>;
                      fr = createFood rnd w1 True (Some fx) (Some fy)
                             ((dx / len) * speed) ((dy / len) * speed)
                  in (snd fr)\<lparr>foods := foods (snd fr) @ [fst fr]\<rparr>)))"

text \<open>\<^verbatim>\<open>ejectMass(player)\<close>; \<^verbatim>\<open>len\<close> is never 0 after \<^verbatim>\<open>|| 1\<close>, but the test
  is the program's.\<close>

definition ejectMass :: "(nat \<Rightarrow> real) \<Rightarrow> nat \<Rightarrow> world \<Rightarrow> world" where
  "ejectMass rnd i w =
     (let p = players w ! i; dir = inputDir p; len = hypotOr1 (fst dir) (snd dir)
      in if len = 0 then w else fold (ejectCell rnd dir) (cells p) w)"

subsection \<open>BOT AI\<close>

text \<open>A \<^verbatim>\<open>target\<close> or \<^verbatim>\<open>flee\<close> object \<^verbatim>\<open>{x, y, dist2}\<close>, or \<^verbatim>\<open>null\<close>.\<close>

type_synonym goal = "(real \<times> real \<times> real) option"

definition goalDist2 :: "goal \<Rightarrow> real" where
  "goalDist2 g = (case g of Some (gx, gy, d) \<Rightarrow> d | None \<Rightarrow> 0)"

text \<open>The body of the loop over \<^verbatim>\<open>foods\<close> in \<^verbatim>\<open>botThink\<close>.\<close>

definition botSeeFood :: "cell \<Rightarrow> food \<Rightarrow> goal \<Rightarrow> goal" where
  "botSeeFood my f target =
     (let dx = f_x f - c_x my; dy = f_y f - c_y my; dist2 = dx * dx + dy * dy
      in if target = None \<or> dist2 < goalDist2 target then Some (f_x f, f_y f, dist2)
         else target)"

text \<open>The body of the loop over another player's cells; the state is
  \<^verbatim>\<open>(target, flee)\<close>.\<close>

definition botSeeCell :: "cell \<Rightarrow> cell \<Rightarrow> goal \<times> goal \<Rightarrow> goal \<times> goal" where
  "botSeeCell my c s =
     (case s of (target, flee) \<Rightarrow>
       (let dx = c_x c - c_x my; dy = c_y c - c_y my; dist2 = dx * dx + dy * dy
        in if radius c > radius my * 1.2
           then (if flee = None \<or> dist2 < goalDist2 flee
                 then (target, Some (c_x c, c_y c, dist2)) else (target, flee))
           else if radius c < radius my * 0.8
           then (if target = None \<or> dist2 < goalDist2 target
                 then (Some (c_x c, c_y c, dist2), flee) else (target, flee))
           else (target, flee)))"

text \<open>\<^verbatim>\<open>botThink(bot)\<close> for the bot at position \<open>i\<close>. \<^verbatim>\<open>Math.random()\<close> is
  called only when \<^verbatim>\<open>target\<close> is not null.\<close>

definition botThink :: "(nat \<Rightarrow> real) \<Rightarrow> nat \<Rightarrow> world \<Rightarrow> world" where
  "botThink rnd i w =
     (let bot = players w ! i
      in if cells bot = [] then w
         else
           (let my = cellStore w (hd (cells bot));
                target0 = fold (botSeeFood my) (foods w) None;
                others = concat (map (\<lambda>j. if j = i then [] else cells (players w ! j))
                                   [0..<length (players w)]);
                s = fold (\<lambda>r. botSeeCell my (cellStore w r)) others (target0, None);
                target = fst s; flee = snd s;
                v = (case flee of
                       Some (gx, gy, d) \<Rightarrow> (c_x my - gx, c_y my - gy)
                     | None \<Rightarrow>
                        (case target of
                           Some (gx, gy, d) \<Rightarrow> (gx - c_x my, gy - c_y my)
                         | None \<Rightarrow> (0, 0)));
                len = hypotOr1 (fst v) (snd v);
                w1 = w\<lparr>players := (players w)[i := bot\<lparr>inputDir := (fst v / len, snd v / len)\<rparr>]\<rparr>
            in if target \<noteq> None
               then (let w2 = w1\<lparr>cursor := cursor w1 + 1\<rparr>
                     in if rnd (cursor w1) < 0.01 then splitPlayer i w2 else w2)
               else w1))"

subsection \<open>MESSAGE HANDLING\<close>

text \<open>
  A decoded message, by its \<^verbatim>\<open>type\<close>. \<open>Join\<close> carries \<^verbatim>\<open>name\<close> when it is a
  string, \<^verbatim>\<open>skin\<close> when it is a number and \<^verbatim>\<open>color\<close> when it is an object;
  \<open>Input\<close> carries \<^verbatim>\<open>dir\<close> when it is an array, each element already passed
  through \<^verbatim>\<open>Number(v) || 0\<close>. Raw data that is no text, text that is no JSON and unknown
  types are \<open>Ignored\<close>.
\<close>

datatype msg =
    Join "string option" "real option" "real list option"
  | Input "real list option"
  | Split
  | Eject
  | Ignored

text \<open>\<^verbatim>\<open>players.get(id)\<close>: the position of the player registered under \<open>pid\<close>.\<close>

fun playerIndex :: "player list \<Rightarrow> nat \<Rightarrow> nat option" where
  "playerIndex [] pid = None"
| "playerIndex (p # ps) pid =
     (if p_id p = pid then Some 0 else map_option Suc (playerIndex ps pid))"

definition handleJoin :: "string option \<Rightarrow> real option \<Rightarrow> real list option \<Rightarrow> player \<Rightarrow> player" where
  "handleJoin nm sk col p =
     (let p1 = (case nm of Some s \<Rightarrow> if length s > 0 then p\<lparr>name := take 16 s\<rparr> else p
                | None \<Rightarrow> p);
          p2 = (case sk of Some k \<Rightarrow> p1\<lparr>skin := k\<rparr> | None \<Rightarrow> p1)
      in case col of Some c \<Rightarrow> p2\<lparr>p_color := c\<rparr> | None \<Rightarrow> p2)"

text \<open>The \<^verbatim>\<open>"input"\<close> case, on the player object and the store it reads.\<close>

definition handleInput :: "(nat \<Rightarrow> cell) \<Rightarrow> real list option \<Rightarrow> player \<Rightarrow> player" where
  "handleInput st dir p =
     (case dir of
        Some [d0, d1] \<Rightarrow>
          (let p1 = p\<lparr>inputDir := (d0, d1)\<rparr>;
               dirLen = sqrt (d0 ^ 2 + d1 ^ 2)
           in if dirLen > 0
              then (if length (cells p1) > 0
                    then (let firstCell = st (hd (cells p1)); mouseDistance = 100
                          in p1\<lparr>mouseX := c_x firstCell + d0 * mouseDistance,
                                mouseY := c_y firstCell + d1 * mouseDistance,
                                hasMouseTarget := True\<rparr>)
                    else p1)
              else p1)
      | _ \<Rightarrow> p)"

text \<open>
  \<^verbatim>\<open>handleMessage(ws, raw)\<close> after decoding: \<open>cid\<close> is \<^verbatim>\<open>clients.get(ws)\<close>
  (\<open>None\<close> for an unknown socket; the id 0 is falsy too).
\<close>

definition handleMessage :: "(nat \<Rightarrow> real) \<Rightarrow> nat option \<Rightarrow> msg \<Rightarrow> world \<Rightarrow> world" where
  "handleMessage rnd cid m w =
     (case cid of
        None \<Rightarrow> w
      | Some pid \<Rightarrow>
          if pid = 0 then w
          else
            (case playerIndex (players w) pid of
               None \<Rightarrow> w
             | Some i \<Rightarrow>
                 (case m of
                    Join nm sk col \<Rightarrow>
                      w\<lparr>players := (players w)[i := handleJoin nm sk col (players w ! i)]\<rparr>
                  | Input dir \<Rightarrow>
                      w\<lparr>players := (players w)[i := handleInput (cellStore w) dir (players w ! i)]\<rparr>
                  | Split \<Rightarrow> splitPlayer i w
                  | Eject \<Rightarrow> ejectMass rnd i w
                  | Ignored \<Rightarrow> w)))"

subsection \<open>GAME LOGIC: the virus explosion\<close>

text \<open>
  Fragment \<open>i\<close> of \<^verbatim>\<open>explodeCellIntoMany\<close>, for the exploding cell \<open>c\<close>, the
  random value \<open>u\<close> drawn for it and the number of pieces.
\<close>

definition fragment :: "cell \<Rightarrow> int \<Rightarrow> real \<Rightarrow> nat \<Rightarrow> cell" where
  "fragment c pieces u i =
     (let totalArea = cellAreaFromRadius (radius c);
          pieceArea = totalArea / real_of_int pieces;
          pieceRadius = radiusFromArea pieceArea;
          minDistance = pieceRadius * 3;
          angle = (2 * pi * real i) / real_of_int pieces;
          speed = 200;
          distance = minDistance * (0.8 + u * 0.4);
          offsetX = cos angle * distance;
          offsetY = sin angle * distance
      in \<lparr>c_x = c_x c + offsetX, c_y = c_y c + offsetY, radius = pieceRadius,
          c_vx = cos angle * speed, c_vy = sin angle * speed,
          mergeTimer = MERGE_TIME * 1.2\<rparr>)"

definition piecesOf :: "cell \<Rightarrow> int" where
  "piecesOf c =
     min MAX_VIRUS_PIECES (max 8 (\<lfloor>cellAreaFromRadius (radius c) / 2000\<rfloor>))"

text \<open>
  \<^verbatim>\<open>explodeCellIntoMany(player, cell)\<close> for the player at position \<open>i\<close> and the cell
  reference \<open>r\<close>. The fragments take the references \<open>nextCell w, nextCell w + 1, ...\<close>;
  \<^verbatim>\<open>player.cells\<close> becomes a new array: the old one without \<open>r\<close>, then the fragments.
\<close>

definition explodeCellIntoMany :: "(nat \<Rightarrow> real) \<Rightarrow> nat \<Rightarrow> nat \<Rightarrow> world \<Rightarrow> world" where
  "explodeCellIntoMany rnd i r w =
     (let c = cellStore w r;
          n = nat (piecesOf c);
          newCells = map (\<lambda>k. nextCell w + k) [0..<n];
          st = fold (\<lambda>k s. s(nextCell w + k := fragment c (piecesOf c) (rnd (cursor w + k)) k))
                 [0..<n] (cellStore w);
          p = players w ! i
      in w\<lparr>players := (players w)[i := p\<lparr>cells := filter (\<lambda>q. q \<noteq> r) (cells p) @ newCells\<rparr>],
           cellStore := st, nextCell := nextCell w + n, cursor := cursor w + n\<rparr>)"

subsection \<open>GAME LOGIC: update\<close>

text \<open>Phase 1: \<^verbatim>\<open>botThink\<close> for every bot, in registry order.\<close>

definition botsPhase :: "(nat \<Rightarrow> real) \<Rightarrow> world \<Rightarrow> world" where
  "botsPhase rnd w =
     fold (\<lambda>i v. if isBot (players v ! i) then botThink rnd i v else v)
       [0..<length (players w)] w"

text \<open>Phase 2: ejected food moves, then slows down.\<close>

definition moveFood :: "real \<Rightarrow> food \<Rightarrow> food" where
  "moveFood dt f =
     (if isEjected f
      then f\<lparr>f_x := f_x f + f_vx f * dt, f_y := f_y f + f_vy f * dt,
             f_vx := f_vx f * 0.85, f_vy := f_vy f * 0.85\<rparr>
      else f)"

definition foodMovePhase :: "real \<Rightarrow> world \<Rightarrow> world" where
  "foodMovePhase dt w = w\<lparr>foods := map (moveFood dt) (foods w)\<rparr>"

text \<open>
  Phase 3, the movement of one cell. \<open>accelerate\<close> is the \<^verbatim>\<open>if (p.hasMouseTarget)\<close>
  statement; \<open>moveCell\<close> is the whole body of the loop, in the program's order.
\<close>

definition accelerate :: "real \<Rightarrow> player \<Rightarrow> cell \<Rightarrow> cell" where
  "accelerate dt p c =
     (let sizeFactor = sqrt (radius c / 40);
          speed = BASE_SPEED / sizeFactor
      in if hasMouseTarget p
         then
           (let dx = mouseX p - c_x c; dy = mouseY p - c_y c;
                distToMouse = sqrt (dx * dx + dy * dy)
            in if distToMouse > radius c * 0.5
               then c\<lparr>c_vx := c_vx c + (dx / distToMouse) * speed * dt * TARGET_SPEED_MULTIPLIER,
                       c_vy := c_vy c + (dy / distToMouse) * speed * dt * TARGET_SPEED_MULTIPLIER\<rparr>
               else c\<lparr>c_vx := c_vx c * 0.7, c_vy := c_vy c * 0.7\<rparr>)
         else
           (let dx = fst (inputDir p); dy = snd (inputDir p); dirLen = hypotOr1 dx dy
            in c\<lparr>c_vx := c_vx c + (dx / dirLen) * speed * dt,
                   c_vy := c_vy c + (dy / dirLen) * speed * dt\<rparr>))"

definition moveCell :: "real \<Rightarrow> player \<Rightarrow> cell \<Rightarrow> cell" where
  "moveCell dt p c =
     (let worldHalf = WORLD_SIZE / 2;
          c1 = accelerate dt p c;
          c2 = c1\<lparr>c_x := c_x c1 + c_vx c1 * dt, c_y := c_y c1 + c_vy c1 * dt\<rparr>;
          c3 = c2\<lparr>c_vx := c_vx c2 * 0.86, c_vy := c_vy c2 * 0.86\<rparr>;
          c4 = c3\<lparr>c_x := max (- worldHalf + radius c3) (min (worldHalf - radius c3) (c_x c3))\<rparr>;
          c5 = c4\<lparr>c_y := max (- worldHalf + radius c4) (min (worldHalf - radius c4) (c_y c4))\<rparr>
      in c5\<lparr>mergeTimer := mergeTimer c5 - dt\<rparr>)"

definition movePlayer :: "real \<Rightarrow> player \<Rightarrow> (nat \<Rightarrow> cell) \<Rightarrow> (nat \<Rightarrow> cell)" where
  "movePlayer dt p st = fold (\<lambda>r s. s(r := moveCell dt p (s r))) (cells p) st"

definition movePhase :: "real \<Rightarrow> world \<Rightarrow> world" where
  "movePhase dt w = w\<lparr>cellStore := fold (movePlayer dt) (players w) (cellStore w)\<rparr>"

text \<open>The boundary of both per-tick trees.\<close>

definition worldBox :: box where
  "worldBox = \<lparr>b_x = 0, b_y = 0, b_w = WORLD_SIZE, b_h = WORLD_SIZE\<rparr>"

text \<open>
  Phase 4, food. The tree holds the food objects, here their positions in \<^verbatim>\<open>foods\<close>
  (the array keeps its length and order until the purge). \<open>eatFood\<close> is the body of the
  loop over \<^verbatim>\<open>nearby\<close> for the cell reference \<open>r\<close> and the pellet at position \<open>k\<close>.
\<close>

definition foodPos :: "food list \<Rightarrow> nat \<Rightarrow> real \<times> real" where
  "foodPos fs k = (f_x (fs ! k), f_y (fs ! k))"

definition buildFoodTree :: "food list \<Rightarrow> nat quadtree" where
  "buildFoodTree fs =
     fst (insertAll (foodPos fs) (newQuadTree worldBox 10 0 8) [0..<length fs])"

text \<open>The exact test of the food pass: the circles of the cell and the pellet overlap.\<close>

definition touchesFood :: "cell \<Rightarrow> food \<Rightarrow> bool" where
  "touchesFood c f =
     (let dx = c_x c - f_x f; dy = c_y c - f_y f
      in dx * dx + dy * dy < (radius c + f_radius f) ^ 2)"

definition eatFood :: "nat \<Rightarrow> nat \<Rightarrow> (nat \<Rightarrow> cell) \<times> food list \<Rightarrow> (nat \<Rightarrow> cell) \<times> food list" where
  "eatFood r k s =
     (case s of (st, fs) \<Rightarrow>
       (let c = st r; f = fs ! k
        in if dead f then (st, fs)
           else if touchesFood c f
           then (let areaC = cellAreaFromRadius (radius c);
                     areaF = cellAreaFromRadius (f_radius f)
                 in (st(r := c\<lparr>radius := radiusFromArea (areaC + areaF)\<rparr>),
                     fs[k := f\<lparr>dead := True\<rparr>]))
           else (st, fs)))"

text \<open>The query box of a cell: side \<^verbatim>\<open>c.radius * 4\<close>, centred on the cell.\<close>

definition cellRange :: "cell \<Rightarrow> box" where
  "cellRange c = \<lparr>b_x = c_x c, b_y = c_y c, b_w = radius c * 4, b_h = radius c * 4\<rparr>"

definition cellEatsFood :: "nat quadtree \<Rightarrow> nat \<Rightarrow> (nat \<Rightarrow> cell) \<times> food list \<Rightarrow> (nat \<Rightarrow> cell) \<times> food list" where
  "cellEatsFood qt r s =
     (let nearby = queryRange (foodPos (snd s)) qt (cellRange (fst s r)) []
      in fold (eatFood r) nearby s)"

text \<open>The purge and the top-up loop \<^verbatim>\<open>while (foods.length < FOOD_COUNT)\<close>.\<close>

function topUpFood :: "(nat \<Rightarrow> real) \<Rightarrow> world \<Rightarrow> world" where
  "topUpFood rnd w =
     (if length (foods w) < FOOD_COUNT then topUpFood rnd (pushRandomFood rnd w) else w)"
  by pat_completeness auto
termination
  by (relation "measure (\<lambda>(rnd, w). FOOD_COUNT - length (foods w))")
     (auto simp: pushRandomFood_def createFood_def Let_def)

declare topUpFood.simps [simp del]

definition foodPhase :: "(nat \<Rightarrow> real) \<Rightarrow> world \<Rightarrow> world" where
  "foodPhase rnd w =
     (let qtFood = buildFoodTree (foods w);
          allRefs = concat (map cells (players w));
          s = fold (cellEatsFood qtFood) allRefs (cellStore w, foods w)
      in topUpFood rnd (w\<lparr>cellStore := fst s, foods := filter (\<lambda>f. \<not> dead f) (snd s)\<rparr>))"

text \<open>
  Phase 5, cell against cell. An entry of \<^verbatim>\<open>allCells\<close> is
  \<^verbatim>\<open>{player, cell, x, y, radius}\<close>: the owner (its position in the registry), the
  cell reference, and copies of the cell's position and radius taken when the snapshot
  is built. The tree holds the entries, here their positions in \<^verbatim>\<open>allCells\<close>, and
  files them under the copied \<^verbatim>\<open>x\<close> and \<^verbatim>\<open>y\<close>.
\<close>

record item =
  i_player :: nat
  i_cell :: nat
  i_x :: real
  i_y :: real
  i_radius :: real

definition allCells :: "world \<Rightarrow> item list" where
  "allCells w =
     concat (map (\<lambda>i. map (\<lambda>r. \<lparr>i_player = i, i_cell = r, i_x = c_x (cellStore w r),
                                  i_y = c_y (cellStore w r), i_radius = radius (cellStore w r)\<rparr>)
                          (cells (players w ! i)))
               [0..<length (players w)])"

definition itemPos :: "item list \<Rightarrow> nat \<Rightarrow> real \<times> real" where
  "itemPos items k = (i_x (items ! k), i_y (items ! k))"

definition buildCellTree :: "item list \<Rightarrow> nat quadtree" where
  "buildCellTree items =
     fst (insertAll (itemPos items) (newQuadTree worldBox 8 0 8) [0..<length items])"

text \<open>\<^verbatim>\<open>pB.cells.indexOf(cB)\<close> and the \<^verbatim>\<open>splice\<close> that follows when it is not -1:
  the first occurrence is removed.\<close>

definition removeCell :: "nat \<Rightarrow> nat list \<Rightarrow> nat list" where
  "removeCell r rs = remove1 r rs"

text \<open>The body of the loop over \<^verbatim>\<open>nearby\<close> for the entry at position \<open>k\<close> and the
  candidate at position \<open>other\<close>.\<close>

text \<open>The eating distance: the squared distance of the centres is below the square of
  the eater's radius minus a quarter of the other radius.\<close>

definition withinEatingDistance :: "cell \<Rightarrow> cell \<Rightarrow> bool" where
  "withinEatingDistance a b =
     (let dx = c_x a - c_x b; dy = c_y a - c_y b;
          dist2 = dx * dx + dy * dy;
          minDist = radius a - radius b * 0.25
      in dist2 < minDist * minDist)"

definition eatCell :: "item list \<Rightarrow> nat \<Rightarrow> nat \<Rightarrow> world \<Rightarrow> world" where
  "eatCell items k other w =
     (if other = k then w
      else
        (let pA = i_player (items ! k); cA = i_cell (items ! k);
             pB = i_player (items ! other); cB = i_cell (items ! other);
             a = cellStore w cA; b = cellStore w cB
         in if pA = pB then w
            else if radius a \<le> radius b * 1.15 then w
            else if withinEatingDistance a b
            then
              (let areaA = cellAreaFromRadius (radius a);
                   areaB = cellAreaFromRadius (radius b);
                   newArea = areaA + areaB;
                   owner = players w ! pB
               in w\<lparr>cellStore := (cellStore w)(cA := a\<lparr>radius := radiusFromArea newArea\<rparr>),
                    players := (players w)[pB := owner\<lparr>cells := removeCell cB (cells owner)\<rparr>]\<rparr>)
            else w))"

definition cellEatsCells :: "item list \<Rightarrow> nat quadtree \<Rightarrow> nat \<Rightarrow> world \<Rightarrow> world" where
  "cellEatsCells items qt k w =
     (let nearby = queryRange (itemPos items) qt (cellRange (cellStore w (i_cell (items ! k)))) []
      in fold (eatCell items k) nearby w)"

definition cellPhase :: "world \<Rightarrow> world" where
  "cellPhase w =
     (let items = allCells w; qtCells = buildCellTree items
      in fold (cellEatsCells items qtCells) [0..<length items] w)"

text \<open>
  Phase 6, viruses. \<open>hitVirus\<close> is the body of the innermost loop, for the player at
  position \<open>i\<close>, the cell reference \<open>r\<close> and the virus at position \<open>j\<close>. The loop over
  \<^verbatim>\<open>p.cells\<close> runs over the array as it is when the loop starts:
  \<^verbatim>\<open>explodeCellIntoMany\<close> assigns a new array and leaves the iterated one alone.
\<close>

definition touchesVirus :: "cell \<Rightarrow> virus \<Rightarrow> bool" where
  "touchesVirus c v =
     (let dx = c_x c - v_x v; dy = c_y c - v_y v
      in dx * dx + dy * dy < (radius c + v_radius v) ^ 2)"

definition hitVirus :: "(nat \<Rightarrow> real) \<Rightarrow> nat \<Rightarrow> nat \<Rightarrow> nat \<Rightarrow> world \<Rightarrow> world" where
  "hitVirus rnd i r j w =
     (let c = cellStore w r; v = viruses w ! j
      in if touchesVirus c v
         then (if radius c > v_radius v * 1.1
               then (let w1 = explodeCellIntoMany rnd i r w;
                         v' = (viruses w1 ! j)\<lparr>v_x := randPos (rnd (cursor w1)),
                                                v_y := randPos (rnd (cursor w1 + 1))\<rparr>
                     in w1\<lparr>viruses := (viruses w1)[j := v'], cursor := cursor w1 + 2\<rparr>)
               else w)
         else w)"

definition virusPlayer :: "(nat \<Rightarrow> real) \<Rightarrow> nat \<Rightarrow> world \<Rightarrow> world" where
  "virusPlayer rnd i w =
     fold (\<lambda>r v. fold (hitVirus rnd i r) [0..<length (viruses v)] v) (cells (players w ! i)) w"

definition virusPhase :: "(nat \<Rightarrow> real) \<Rightarrow> world \<Rightarrow> world" where
  "virusPhase rnd w = fold (virusPlayer rnd) [0..<length (players w)] w"

text \<open>
  Phase 7, merging a player's own cells: the two nested index loops over the live array
  of cell references. After a merge, \<^verbatim>\<open>splice(j, 1)\<close>, \<^verbatim>\<open>j--\<close> and the loop's
  \<^verbatim>\<open>j++\<close> leave \<open>j\<close> where it is.
\<close>

definition splice1 :: "nat \<Rightarrow> 'a list \<Rightarrow> 'a list" where
  "splice1 j xs = take j xs @ drop (Suc j) xs"

text \<open>The body of the inner loop for the positions \<open>i\<close> and \<open>j\<close>; the boolean tells
  whether the pair was merged (and \<^verbatim>\<open>j--\<close> ran).\<close>

text \<open>The overlap test of the merge sweep.\<close>

definition overlapping :: "cell \<Rightarrow> cell \<Rightarrow> bool" where
  "overlapping a b =
     (let dx = c_x a - c_x b; dy = c_y a - c_y b; dist2 = dx * dx + dy * dy
      in dist2 < (radius a + radius b) ^ 2)"

definition mergePair ::
  "nat \<Rightarrow> nat \<Rightarrow> (nat \<Rightarrow> cell) \<times> nat list \<Rightarrow> ((nat \<Rightarrow> cell) \<times> nat list) \<times> bool" where
  "mergePair i j s =
     (case s of (st, cs) \<Rightarrow>
       (let a = st (cs ! i); b = st (cs ! j)
        in if mergeTimer a > 0 \<or> mergeTimer b > 0 then ((st, cs), False)
           else if overlapping a b
           then
             (let areaA = cellAreaFromRadius (radius a);
                  areaB = cellAreaFromRadius (radius b)
              in ((st(cs ! i := a\<lparr>radius := radiusFromArea (areaA + areaB)\<rparr>),
                   splice1 j cs), True))
           else ((st, cs), False)))"

lemma mergePair_length:
  "j < length (snd s) \<Longrightarrow>
     length (snd (fst (mergePair i j s))) =
       (if snd (mergePair i j s) then length (snd s) - 1 else length (snd s))"
  by (cases s) (auto simp: mergePair_def Let_def splice1_def)

function mergeLoop :: "nat \<Rightarrow> nat \<Rightarrow> (nat \<Rightarrow> cell) \<times> nat list \<Rightarrow> (nat \<Rightarrow> cell) \<times> nat list" where
  "mergeLoop i j s =
     (if i < length (snd s)
      then
        (if j < length (snd s)
         then (let r = mergePair i j s
               in if snd r then mergeLoop i j (fst r) else mergeLoop i (j + 1) (fst r))
         else mergeLoop (i + 1) (i + 2) s)
      else s)"
  by pat_completeness auto
termination
proof (relation "measures [\<lambda>(i, j, s). length (snd s) - i, \<lambda>(i, j, s). length (snd s) - j]",
    goal_cases)
  case 1
  show ?case by simp
next
  case (2 i j s r)
  then show ?case using mergePair_length[of j s i] by auto
next
  case (3 i j s r)
  then show ?case using mergePair_length[of j s i] by auto
next
  case (4 i j s)
  then show ?case by auto
qed

declare mergeLoop.simps [simp del]

definition mergePlayer :: "nat \<Rightarrow> world \<Rightarrow> world" where
  "mergePlayer i w =
     (let p = players w ! i
      in if length (cells p) \<le> 1 then w
         else (case mergeLoop 0 1 (cellStore w, cells p) of
                 (st, cs) \<Rightarrow> w\<lparr>cellStore := st, players := (players w)[i := p\<lparr>cells := cs\<rparr>]\<rparr>))"

definition mergePhase :: "world \<Rightarrow> world" where
  "mergePhase w = fold mergePlayer [0..<length (players w)] w"

text \<open>\<^verbatim>\<open>update(dt)\<close>. \<^verbatim>\<open>broadcastState()\<close> only reads the state.\<close>

definition update :: "(nat \<Rightarrow> real) \<Rightarrow> real \<Rightarrow> world \<Rightarrow> world" where
  "update rnd dt w =
     mergePhase (virusPhase rnd (cellPhase (foodPhase rnd (movePhase dt
       (foodMovePhase dt (botsPhase rnd w))))))"

subsection \<open>The event loop\<close>

text \<open>
  What the server reacts to once it runs: the timer of \<^verbatim>\<open>startGameLoop\<close> calling
  \<^verbatim>\<open>update(dt)\<close>, and the \<^verbatim>\<open>"message"\<close> handler of a socket calling
  \<^verbatim>\<open>handleMessage\<close>. \<open>run\<close> applies a sequence of such events in order. The
  \<^verbatim>\<open>"close"\<close> handler, which deletes a player from the registry, is not among them.
\<close>

datatype event = Tick real | Message "nat option" msg

fun step :: "(nat \<Rightarrow> real) \<Rightarrow> event \<Rightarrow> world \<Rightarrow> world" where
  "step rnd (Tick dt) w = update rnd dt w"
| "step rnd (Message cid m) w = handleMessage rnd cid m w"


section \<open>The spatial index\<close>

text \<open>Every object held in a tree, and the invariant that a node's boundary contains
  every object held at or below it.\<close>

fun allPoints :: "'a quadtree \<Rightarrow> 'a list" where
  "allPoints (Leaf b c d m ps) = ps"
| "allPoints (Quad b c d m ps q1 q2 q3 q4) =
     ps @ allPoints q1 @ allPoints q2 @ allPoints q3 @ allPoints q4"

fun qtInv :: "('a \<Rightarrow> real \<times> real) \<Rightarrow> 'a quadtree \<Rightarrow> bool" where
  "qtInv pos (Leaf b c d m ps) = list_all (\<lambda>p. \<not> outsideBox b (pos p)) ps"
| "qtInv pos (Quad b c d m ps q1 q2 q3 q4) =
     (list_all (\<lambda>p. \<not> outsideBox b (pos p)) (allPoints (Quad b c d m ps q1 q2 q3 q4)) \<and>
      qtInv pos q1 \<and> qtInv pos q2 \<and> qtInv pos q3 \<and> qtInv pos q4)"

lemma qtInv_boundary:
  "qtInv pos t \<Longrightarrow> p \<in> set (allPoints t) \<Longrightarrow> \<not> outsideBox (boundary t) (pos p)"
  by (cases t) (auto simp: list_all_iff)

lemma allPoints_pushPoint: "set (allPoints (pushPoint t obj)) = Set.insert obj (set (allPoints t))"
  by (cases t) (auto simp: pushPoint_def)

lemma boundary_pushPoint: "boundary (pushPoint t obj) = boundary t"
  by (cases t) (auto simp: pushPoint_def)

lemma qtInv_pushPoint:
  "qtInv pos t \<Longrightarrow> \<not> outsideBox (boundary t) (pos obj) \<Longrightarrow> qtInv pos (pushPoint t obj)"
  by (cases t) (auto simp: pushPoint_def)

lemma boundary_insert: "boundary (snd (insert pos t obj)) = boundary t"
  by (subst insert.simps) (auto simp: Let_def boundary_pushPoint divided_def subdivide_def split: quadtree.splits)

lemma allPoints_insert:
  "set (allPoints (snd (insert pos t obj))) =
     (if fst (insert pos t obj) then Set.insert obj (set (allPoints t)) else set (allPoints t))"
proof (induction pos t obj rule: insert.induct)
  case (1 pos t obj)
  show ?case
  proof (cases "outsideBox (boundary t) (pos obj) \<or> length (points t) < capacity t \<or> depth t \<ge> maxDepth t")
    case True
    then show ?thesis
      by (subst (1 2) insert.simps) (auto simp: allPoints_pushPoint)
  next
    case False
    define t' where "t' = (if divided t then t else subdivide t)"
    have pts: "set (allPoints t) = set (points t') \<union> set (allPoints (nw t')) \<union> set (allPoints (ne t'))
                \<union> set (allPoints (sw t')) \<union> set (allPoints (se t'))"
      by (cases t) (auto simp: t'_def divided_def subdivide_def newQuadTree_def Let_def)
    note ih = "1.IH"[OF _ _ t'_def]
    show ?thesis
      using False ih pts
      apply (subst (1 2) insert.simps)
      apply (simp add: Let_def t'_def[symmetric])
      apply (auto simp: Let_def)
      done
  qed
qed


lemma qtInv_insert: "qtInv pos t \<Longrightarrow> qtInv pos (snd (insert pos t obj))"
proof (induction pos t obj rule: insert.induct)
  case (1 pos t obj)
  show ?case
  proof (cases "outsideBox (boundary t) (pos obj)")
    case True
    then show ?thesis using "1.prems" by (subst insert.simps) simp
  next
    case inside: False
    show ?thesis
    proof (cases "length (points t) < capacity t \<or> depth t \<ge> maxDepth t")
      case True
      then show ?thesis using "1.prems" inside
        by (subst insert.simps) (auto simp: qtInv_pushPoint)
    next
      case False
      define t' where "t' = (if divided t then t else subdivide t)"
      have inv': "qtInv pos (nw t')" "qtInv pos (ne t')" "qtInv pos (sw t')" "qtInv pos (se t')"
        and bnd: "boundary t' = boundary t"
        and all: "\<forall>p \<in> set (points t') \<union> set (allPoints (nw t')) \<union> set (allPoints (ne t'))
                \<union> set (allPoints (sw t')) \<union> set (allPoints (se t')). \<not> outsideBox (boundary t) (pos p)"
        using "1.prems"
        by (cases t; auto simp: t'_def divided_def subdivide_def newQuadTree_def Let_def list_all_iff)+
      note ih = "1.IH"[OF _ _ t'_def]
      show ?thesis
        using False inside ih inv' all
        apply (subst insert.simps)
        by (simp add: Let_def t'_def[symmetric] bnd list_all_iff allPoints_insert)
    qed
  qed
qed

lemma queryRange_mono: "set found \<subseteq> set (queryRange pos t rg found)"
proof (induction t arbitrary: found)
  case (Leaf b c d m ps)
  show ?case by auto
next
  case (Quad b c d m ps q1 q2 q3 q4)
  have "set found \<subseteq> set (found @ filter (\<lambda>p. inRange rg (pos p)) ps)" by auto
  also have "\<dots> \<subseteq> set (queryRange pos q1 rg (found @ filter (\<lambda>p. inRange rg (pos p)) ps))"
    by (rule Quad.IH)
  also have "\<dots> \<subseteq> set (queryRange pos q2 rg (queryRange pos q1 rg (found @ filter (\<lambda>p. inRange rg (pos p)) ps)))"
    by (rule Quad.IH)
  also have "\<dots> \<subseteq> set (queryRange pos q3 rg (queryRange pos q2 rg (queryRange pos q1 rg (found @ filter (\<lambda>p. inRange rg (pos p)) ps))))"
    by (rule Quad.IH)
  also have "\<dots> \<subseteq> set (queryRange pos q4 rg (queryRange pos q3 rg (queryRange pos q2 rg (queryRange pos q1 rg (found @ filter (\<lambda>p. inRange rg (pos p)) ps)))))"
    by (rule Quad.IH)
  finally show ?case by auto
qed

lemma inRange_not_misses:
  "inRange rg p \<Longrightarrow> \<not> outsideBox b p \<Longrightarrow> \<not> rangeMisses rg b"
  by (auto simp: inRange_def outsideBox_def rangeMisses_def)

lemma queryRange_complete:
  "qtInv pos t \<Longrightarrow> p \<in> set (allPoints t) \<Longrightarrow> inRange rg (pos p) \<Longrightarrow>
     p \<in> set (queryRange pos t rg found)"
proof (induction t arbitrary: found)
  case (Leaf b c d m ps)
  then have "\<not> rangeMisses rg b"
    using inRange_not_misses[of rg "pos p" b] by (auto simp: list_all_iff)
  then show ?case using Leaf by auto
next
  case (Quad b c d m ps q1 q2 q3 q4)
  have nm: "\<not> rangeMisses rg b"
    using Quad.prems inRange_not_misses[of rg "pos p" b] by (auto simp: list_all_iff)
  let ?f0 = "found @ filter (\<lambda>p. inRange rg (pos p)) ps"
  let ?f1 = "queryRange pos q1 rg ?f0"
  let ?f2 = "queryRange pos q2 rg ?f1"
  let ?f3 = "queryRange pos q3 rg ?f2"
  let ?f4 = "queryRange pos q4 rg ?f3"
  have m1: "set ?f0 \<subseteq> set ?f1" and m2: "set ?f1 \<subseteq> set ?f2"
    and m3: "set ?f2 \<subseteq> set ?f3" and m4: "set ?f3 \<subseteq> set ?f4"
    by (rule queryRange_mono)+
  from Quad.prems(2) consider "p \<in> set ps" | "p \<in> set (allPoints q1)" | "p \<in> set (allPoints q2)"
    | "p \<in> set (allPoints q3)" | "p \<in> set (allPoints q4)" by auto
  then have "p \<in> set ?f4"
  proof cases
    case 1
    then have "p \<in> set ?f0" using Quad.prems(3) by simp
    then show ?thesis using m1 m2 m3 m4 by blast
  next
    case 2
    then have "p \<in> set ?f1" using Quad.IH(1) Quad.prems by simp
    then show ?thesis using m2 m3 m4 by blast
  next
    case 3
    then have "p \<in> set ?f2" using Quad.IH(2) Quad.prems by simp
    then show ?thesis using m3 m4 by blast
  next
    case 4
    then have "p \<in> set ?f3" using Quad.IH(3) Quad.prems by simp
    then show ?thesis using m4 by blast
  next
    case 5
    then show ?thesis using Quad.IH(4) Quad.prems by simp
  qed
  then show ?case using nm by simp
qed

lemma insertAll_inv:
  "qtInv pos t \<Longrightarrow> qtInv pos (fst (insertAll pos t objs))"
  by (induction objs arbitrary: t) (auto simp: Let_def qtInv_insert)

lemma insertAll_points:
  "set (allPoints (fst (insertAll pos t objs))) = set (allPoints t) \<union> set (snd (insertAll pos t objs))"
  by (induction objs arbitrary: t) (auto simp: Let_def allPoints_insert)

text \<open>
  C9. Build a tree from an empty root by any sequence of \<^verbatim>\<open>insert\<close> calls. Every
  object whose call returned \<^verbatim>\<open>true\<close> and whose centre lies in the query box is in
  the result of \<^verbatim>\<open>queryRange\<close> for that box: the broad phase has no false negatives.
\<close>

theorem queryRange_no_false_negatives:
  assumes "obj \<in> set (snd (insertAll pos (newQuadTree b cap d md) objs))"
    and "inRange rg (pos obj)"
  shows "obj \<in> set (queryRange pos (fst (insertAll pos (newQuadTree b cap d md) objs)) rg [])"
proof -
  let ?t = "fst (insertAll pos (newQuadTree b cap d md) objs)"
  have "qtInv pos (newQuadTree b cap d md :: 'a quadtree)" by (simp add: newQuadTree_def)
  then have "qtInv pos ?t" by (rule insertAll_inv)
  moreover have "obj \<in> set (allPoints ?t)"
    using insertAll_points[of pos "newQuadTree b cap d md" objs] assms(1) by simp
  ultimately show ?thesis using assms(2) by (rule queryRange_complete)
qed

text \<open>An instance: four points offered to a root of capacity 1 over the square of side 10
  (the last one lies outside and is rejected), queried with the box of side 2 around (1, 1).\<close>

definition smallBox :: box where
  "smallBox = \<lparr>b_x = 0, b_y = 0, b_w = 10, b_h = 10\<rparr>"

definition smallRange :: box where
  "smallRange = \<lparr>b_x = 1, b_y = 1, b_w = 2, b_h = 2\<rparr>"

definition smallPoints :: "(real \<times> real) list" where
  "smallPoints = [(1, 1), (-1, -1), (2, 2), (7, 0)]"

lemma smallPoints_inserted:
  "(2, 2) \<in> set (snd (insertAll (\<lambda>p. p) (newQuadTree smallBox 1 0 8) smallPoints))"
  by code_simp

lemma smallPoints_inRange: "inRange smallRange (2, 2)"
  by code_simp

theorem queryRange_no_false_negatives_witness:
  "(2, 2) \<in> set (snd (insertAll (\<lambda>p. p) (newQuadTree smallBox 1 0 8) smallPoints)) \<and>
   inRange smallRange (2, 2) \<and>
   (2, 2) \<in> set (queryRange (\<lambda>p. p)
                  (fst (insertAll (\<lambda>p. p) (newQuadTree smallBox 1 0 8) smallPoints)) smallRange [])"
  using queryRange_no_false_negatives [OF smallPoints_inserted, of smallRange]
    smallPoints_inserted smallPoints_inRange
  by simp

section \<open>Example states\<close>

text \<open>Small concrete objects on which the theorems below are instantiated.\<close>

definition restingCell :: "real \<Rightarrow> real \<Rightarrow> real \<Rightarrow> real \<Rightarrow> cell" where
  "restingCell px py r t = \<lparr>c_x = px, c_y = py, radius = r, c_vx = 0, c_vy = 0, mergeTimer = t\<rparr>"

definition pelletAt :: "nat \<Rightarrow> real \<Rightarrow> real \<Rightarrow> food" where
  "pelletAt n px py =
     \<lparr>f_id = n, f_x = px, f_y = py, f_radius = FOOD_RADIUS, f_color = [0, 0, 0],
      f_vx = 0, f_vy = 0, isEjected = False, dead = False\<rparr>"

definition humanPlayer :: "nat \<Rightarrow> nat list \<Rightarrow> real \<times> real \<Rightarrow> player" where
  "humanPlayer n rs dir =
     \<lparr>p_id = n, name = ''Player'', skin = -1, p_color = [0, 0, 0], isBot = False, cells = rs,
      inputDir = dir, mouseX = 0, mouseY = 0, hasMouseTarget = False\<rparr>"

text \<open>Sixty pellets along the lower edge and twenty viruses in the upper half.\<close>

definition sixtyPellets :: "food list" where
  "sixtyPellets = map (\<lambda>n. pelletAt (Suc n) (real n * 100 - 2950) (-2900)) [0..<60]"

definition ejectedPellet :: food where
  "ejectedPellet =
     \<lparr>f_id = 61, f_x = 100, f_y = 0, f_radius = FOOD_RADIUS, f_color = [1, 1, 1],
      f_vx = 900, f_vy = 0, isEjected = True, dead = False\<rparr>"

definition twentyViruses :: "virus list" where
  "twentyViruses =
     map (\<lambda>n. \<lparr>v_id = Suc n, v_x = real n * 300 - 2850, v_y = 2000, v_radius = VIRUS_RADIUS\<rparr>)
       [0..<20]"

text \<open>The world after a player has ejected one pellet and left: no players, the sixty
  pellets and the ejected one.\<close>

definition crowdedWorld :: world where
  "crowdedWorld =
     \<lparr>players = [], foods = sixtyPellets @ [ejectedPellet], viruses = twentyViruses,
      cellStore = (\<lambda>r. restingCell 0 0 40 0), nextCell = 1, nextPlayerId = 2,
      nextFoodId = 62, nextVirusId = 21, cursor = 0\<rparr>"

text \<open>A world with exactly sixty pellets and one player.\<close>

definition fullWorld :: world where
  "fullWorld =
     \<lparr>players = [humanPlayer 1 [0] (0, 0)], foods = sixtyPellets, viruses = twentyViruses,
      cellStore = (\<lambda>r. restingCell 0 0 40 0), nextCell = 1, nextPlayerId = 2,
      nextFoodId = 61, nextVirusId = 21, cursor = 0\<rparr>"

definition splitWorld :: world where
  "splitWorld =
     \<lparr>players = [humanPlayer 1 [0] (1, 0)], foods = sixtyPellets, viruses = twentyViruses,
      cellStore = (\<lambda>r. restingCell 0 0 40 MERGE_TIME), nextCell = 1, nextPlayerId = 2,
      nextFoodId = 61, nextVirusId = 21, cursor = 0\<rparr>"

definition driftingCell :: cell where
  "driftingCell = \<lparr>c_x = 0, c_y = 0, radius = 40, c_vx = 100, c_vy = 0, mergeTimer = MERGE_TIME\<rparr>"

definition twoPlayerItems :: "item list" where
  "twoPlayerItems =
     [\<lparr>i_player = 0, i_cell = 0, i_x = 0, i_y = 0, i_radius = 12\<rparr>,
      \<lparr>i_player = 1, i_cell = 1, i_x = 3, i_y = 0, i_radius = 10\<rparr>]"

definition twoPlayerWorld :: world where
  "twoPlayerWorld =
     \<lparr>players = [humanPlayer 1 [0] (0, 0), humanPlayer 2 [1] (0, 0)], foods = sixtyPellets,
      viruses = twentyViruses,
      cellStore = (\<lambda>r. if r = 0 then restingCell 0 0 12 0 else restingCell 3 0 10 0),
      nextCell = 2, nextPlayerId = 3, nextFoodId = 61, nextVirusId = 21, cursor = 0\<rparr>"

definition siblingStore :: "nat \<Rightarrow> cell" where
  "siblingStore = (\<lambda>r. if r = 0 then restingCell 0 0 20 (-1) else restingCell 10 0 20 (-1))"

section \<open>Mass: area and radius\<close>

lemma area_nonneg: "0 \<le> cellAreaFromRadius r"
  by (simp add: cellAreaFromRadius_def mult.assoc)

lemma area_radiusFromArea: "0 \<le> a \<Longrightarrow> cellAreaFromRadius (radiusFromArea a) = a"
proof -
  assume a: "0 \<le> a"
  have "sqrt (a / pi) * sqrt (a / pi) = a / pi" using a by simp
  then have "pi * (sqrt (a / pi) * sqrt (a / pi)) = a" by simp
  then show ?thesis by (simp add: cellAreaFromRadius_def radiusFromArea_def mult.assoc)
qed

lemma area_sum:
  "cellAreaFromRadius (radiusFromArea (cellAreaFromRadius a + cellAreaFromRadius b)) =
     cellAreaFromRadius a + cellAreaFromRadius b"
  by (rule area_radiusFromArea) (simp add: area_nonneg)

lemma radiusFromArea_sum:
  "radiusFromArea (cellAreaFromRadius a + cellAreaFromRadius b) = sqrt (a\<^sup>2 + b\<^sup>2)"
proof -
  have "(pi * a * a + pi * b * b) / pi = a\<^sup>2 + b\<^sup>2"
    by (simp add: power2_eq_square field_simps)
  then show ?thesis by (simp add: radiusFromArea_def cellAreaFromRadius_def)
qed

lemma radius_grows_strictly:
  "r2 \<noteq> 0 \<Longrightarrow> r1 < radiusFromArea (cellAreaFromRadius r1 + cellAreaFromRadius r2)"
proof -
  assume "r2 \<noteq> 0"
  then have "r1\<^sup>2 < r1\<^sup>2 + r2\<^sup>2" by simp
  then have "sqrt (r1\<^sup>2) < sqrt (r1\<^sup>2 + r2\<^sup>2)" by (simp only: real_sqrt_less_iff)
  moreover have "r1 \<le> sqrt (r1\<^sup>2)" by simp
  ultimately show ?thesis unfolding radiusFromArea_sum by linarith
qed

lemma example_food_eaten:
  "\<not> dead ([pelletAt 1 0 0] ! 0) \<and> touchesFood (restingCell 0 0 40 0) ([pelletAt 1 0 0] ! 0)"
  by (simp add: pelletAt_def restingCell_def touchesFood_def FOOD_RADIUS_def)

lemma example_cell_eaten:
  "i_player (twoPlayerItems ! 0) \<noteq> i_player (twoPlayerItems ! 1) \<and>
   radius (cellStore twoPlayerWorld (i_cell (twoPlayerItems ! 0))) >
     radius (cellStore twoPlayerWorld (i_cell (twoPlayerItems ! 1))) * 1.15 \<and>
   withinEatingDistance (cellStore twoPlayerWorld (i_cell (twoPlayerItems ! 0)))
     (cellStore twoPlayerWorld (i_cell (twoPlayerItems ! 1)))"
  by (simp add: twoPlayerItems_def twoPlayerWorld_def restingCell_def withinEatingDistance_def)

lemma example_siblings_merge:
  "mergeTimer (siblingStore ([0, 1] ! 0)) \<le> 0 \<and> mergeTimer (siblingStore ([0, 1] ! 1)) \<le> 0 \<and>
   overlapping (siblingStore ([0, 1] ! 0)) (siblingStore ([0, 1] ! 1))"
  by (simp add: siblingStore_def restingCell_def overlapping_def)

text \<open>
  C1. In each of the three events in which a cell absorbs something (a pellet in the food
  pass, another player's cell in the cell pass, a sibling in the merge sweep) the cell's
  new radius is \<open>radiusFromArea\<close> of the sum of the two areas, so its new area is the
  sum of the two areas.
\<close>

theorem area_conserved_by_eating_and_merging:
  "(\<not> dead (fs ! k) \<and> touchesFood (st r) (fs ! k) \<longrightarrow>
      radius (fst (eatFood r k (st, fs)) r) =
        radiusFromArea (cellAreaFromRadius (radius (st r)) + cellAreaFromRadius (f_radius (fs ! k))) \<and>
      cellAreaFromRadius (radius (fst (eatFood r k (st, fs)) r)) =
        cellAreaFromRadius (radius (st r)) + cellAreaFromRadius (f_radius (fs ! k)))
   \<and>
   (i_player (items ! n) \<noteq> i_player (items ! other) \<and>
    radius (cellStore w (i_cell (items ! n))) > radius (cellStore w (i_cell (items ! other))) * 1.15 \<and>
    withinEatingDistance (cellStore w (i_cell (items ! n))) (cellStore w (i_cell (items ! other))) \<longrightarrow>
      radius (cellStore (eatCell items n other w) (i_cell (items ! n))) =
        radiusFromArea (cellAreaFromRadius (radius (cellStore w (i_cell (items ! n)))) +
                        cellAreaFromRadius (radius (cellStore w (i_cell (items ! other))))) \<and>
      cellAreaFromRadius (radius (cellStore (eatCell items n other w) (i_cell (items ! n)))) =
        cellAreaFromRadius (radius (cellStore w (i_cell (items ! n)))) +
        cellAreaFromRadius (radius (cellStore w (i_cell (items ! other)))))
   \<and>
   (mergeTimer (mst (cs ! i)) \<le> 0 \<and> mergeTimer (mst (cs ! j)) \<le> 0 \<and>
    overlapping (mst (cs ! i)) (mst (cs ! j)) \<longrightarrow>
      radius (fst (fst (mergePair i j (mst, cs))) (cs ! i)) =
        radiusFromArea (cellAreaFromRadius (radius (mst (cs ! i))) +
                        cellAreaFromRadius (radius (mst (cs ! j)))) \<and>
      cellAreaFromRadius (radius (fst (fst (mergePair i j (mst, cs))) (cs ! i))) =
        cellAreaFromRadius (radius (mst (cs ! i))) + cellAreaFromRadius (radius (mst (cs ! j))))"
proof (intro conjI impI)
  assume h: "\<not> dead (fs ! k) \<and> touchesFood (st r) (fs ! k)"
  then show e1: "radius (fst (eatFood r k (st, fs)) r) =
        radiusFromArea (cellAreaFromRadius (radius (st r)) + cellAreaFromRadius (f_radius (fs ! k)))"
    by (simp add: eatFood_def Let_def)
  show "cellAreaFromRadius (radius (fst (eatFood r k (st, fs)) r)) =
        cellAreaFromRadius (radius (st r)) + cellAreaFromRadius (f_radius (fs ! k))"
    by (simp only: e1 area_sum)
next
  assume h: "i_player (items ! n) \<noteq> i_player (items ! other) \<and>
    radius (cellStore w (i_cell (items ! n))) > radius (cellStore w (i_cell (items ! other))) * 1.15 \<and>
    withinEatingDistance (cellStore w (i_cell (items ! n))) (cellStore w (i_cell (items ! other)))"
  then have ne: "other \<noteq> n" by auto
  show e2: "radius (cellStore (eatCell items n other w) (i_cell (items ! n))) =
        radiusFromArea (cellAreaFromRadius (radius (cellStore w (i_cell (items ! n)))) +
                        cellAreaFromRadius (radius (cellStore w (i_cell (items ! other)))))"
    using h ne by (simp add: eatCell_def Let_def)
  show "cellAreaFromRadius (radius (cellStore (eatCell items n other w) (i_cell (items ! n)))) =
        cellAreaFromRadius (radius (cellStore w (i_cell (items ! n)))) +
        cellAreaFromRadius (radius (cellStore w (i_cell (items ! other))))"
    by (simp only: e2 area_sum)
next
  assume h: "mergeTimer (mst (cs ! i)) \<le> 0 \<and> mergeTimer (mst (cs ! j)) \<le> 0 \<and>
    overlapping (mst (cs ! i)) (mst (cs ! j))"
  then show e3: "radius (fst (fst (mergePair i j (mst, cs))) (cs ! i)) =
        radiusFromArea (cellAreaFromRadius (radius (mst (cs ! i))) +
                        cellAreaFromRadius (radius (mst (cs ! j))))"
    by (simp add: mergePair_def Let_def)
  show "cellAreaFromRadius (radius (fst (fst (mergePair i j (mst, cs))) (cs ! i))) =
        cellAreaFromRadius (radius (mst (cs ! i))) + cellAreaFromRadius (radius (mst (cs ! j)))"
    by (simp only: e3 area_sum)
qed

theorem area_conserved_by_eating_and_merging_witness:
  "(\<not> dead ([pelletAt 1 0 0] ! 0) \<and> touchesFood (restingCell 0 0 40 0) ([pelletAt 1 0 0] ! 0)) \<and>
   cellAreaFromRadius (radius (fst (eatFood 0 0 (\<lambda>r. restingCell 0 0 40 0, [pelletAt 1 0 0])) 0)) =
     cellAreaFromRadius (radius (restingCell 0 0 40 0)) +
     cellAreaFromRadius (f_radius ([pelletAt 1 0 0] ! 0)) \<and>
   (i_player (twoPlayerItems ! 0) \<noteq> i_player (twoPlayerItems ! 1) \<and>
    radius (cellStore twoPlayerWorld (i_cell (twoPlayerItems ! 0))) >
      radius (cellStore twoPlayerWorld (i_cell (twoPlayerItems ! 1))) * 1.15 \<and>
    withinEatingDistance (cellStore twoPlayerWorld (i_cell (twoPlayerItems ! 0)))
      (cellStore twoPlayerWorld (i_cell (twoPlayerItems ! 1)))) \<and>
   cellAreaFromRadius
     (radius (cellStore (eatCell twoPlayerItems 0 1 twoPlayerWorld) (i_cell (twoPlayerItems ! 0)))) =
     cellAreaFromRadius (radius (cellStore twoPlayerWorld (i_cell (twoPlayerItems ! 0)))) +
     cellAreaFromRadius (radius (cellStore twoPlayerWorld (i_cell (twoPlayerItems ! 1)))) \<and>
   (mergeTimer (siblingStore ([0, 1] ! 0)) \<le> 0 \<and> mergeTimer (siblingStore ([0, 1] ! 1)) \<le> 0 \<and>
    overlapping (siblingStore ([0, 1] ! 0)) (siblingStore ([0, 1] ! 1))) \<and>
   cellAreaFromRadius (radius (fst (fst (mergePair 0 1 (siblingStore, [0, 1]))) ([0, 1] ! 0))) =
     cellAreaFromRadius (radius (siblingStore ([0, 1] ! 0))) +
     cellAreaFromRadius (radius (siblingStore ([0, 1] ! 1)))"
  using area_conserved_by_eating_and_merging [where fs = "[pelletAt 1 0 0]" and k = 0
      and st = "\<lambda>r. restingCell 0 0 40 0" and r = 0 and items = twoPlayerItems and n = 0
      and other = 1 and w = twoPlayerWorld and mst = siblingStore and cs = "[0, 1]"
      and i = 0 and j = 1]
    example_food_eaten example_cell_eaten example_siblings_merge
  by blast

section \<open>Split\<close>

lemma hypotOr1_unit: "hypotOr1 1 0 = 1"
  by (simp add: hypotOr1_def hypot_def)

lemma hypotOr1_zero: "hypotOr1 0 0 = 1"
  by (simp add: hypotOr1_def hypot_def)

lemma hypotOr1_nonzero: "hypotOr1 dx dy \<noteq> 0"
  by (simp add: hypotOr1_def)

lemma splitWorld_result:
  "cells (players (splitPlayer 0 splitWorld) ! 0) = [0, 1] \<and>
   radius (cellStore (splitPlayer 0 splitWorld) 0) = 20 \<and>
   radius (cellStore (splitPlayer 0 splitWorld) 1) = 20 \<and>
   c_x (cellStore (splitPlayer 0 splitWorld) 1) - c_x (cellStore (splitPlayer 0 splitWorld) 0) = 50 \<and>
   mergeTimer (cellStore (splitPlayer 0 splitWorld) 0) = MERGE_TIME \<and>
   mergeTimer (cellStore (splitPlayer 0 splitWorld) 1) = MERGE_TIME"
  by (simp add: splitPlayer_def splitWorld_def humanPlayer_def restingCell_def splitCell_def
      Let_def hypotOr1_unit)

text \<open>
  C2, as the program has it. Splitting a cell of radius at least 10 halves its radius and
  adds one new cell of the same halved radius, so each of the two has a quarter of the
  original area and together they have half of it.
\<close>

theorem split_halves_total_area:
  assumes "radius (st r) \<ge> 10" and "r \<noteq> nxt"
  shows "splitCell dir r (st, nxt, newCells) =
           (fst (splitCell dir r (st, nxt, newCells)), nxt + 1, newCells @ [nxt]) \<and>
         radius (fst (splitCell dir r (st, nxt, newCells)) r) = radius (st r) * 0.5 \<and>
         radius (fst (splitCell dir r (st, nxt, newCells)) nxt) = radius (st r) * 0.5 \<and>
         cellAreaFromRadius (radius (fst (splitCell dir r (st, nxt, newCells)) r)) +
         cellAreaFromRadius (radius (fst (splitCell dir r (st, nxt, newCells)) nxt)) =
           cellAreaFromRadius (radius (st r)) / 2"
proof -
  have big: "\<not> radius (st r) < 10" using assms(1) by simp
  have eq: "splitCell dir r (st, nxt, newCells) =
           (fst (splitCell dir r (st, nxt, newCells)), nxt + 1, newCells @ [nxt])"
    using big by (simp add: splitCell_def Let_def)
  have r1: "radius (fst (splitCell dir r (st, nxt, newCells)) r) = radius (st r) * 0.5"
    using big assms(2) by (simp add: splitCell_def Let_def)
  have r2: "radius (fst (splitCell dir r (st, nxt, newCells)) nxt) = radius (st r) * 0.5"
    using big by (simp add: splitCell_def Let_def)
  have half: "cellAreaFromRadius (radius (st r) * 0.5) + cellAreaFromRadius (radius (st r) * 0.5) =
          cellAreaFromRadius (radius (st r)) / 2"
    by (simp add: cellAreaFromRadius_def)
  have sum: "cellAreaFromRadius (radius (fst (splitCell dir r (st, nxt, newCells)) r)) +
         cellAreaFromRadius (radius (fst (splitCell dir r (st, nxt, newCells)) nxt)) =
           cellAreaFromRadius (radius (st r)) / 2"
    by (simp only: r1 r2 half)
  from eq r1 r2 sum show ?thesis by blast
qed

theorem split_halves_total_area_witness:
  "radius (cellStore splitWorld 0) \<ge> 10 \<and> (0::nat) \<noteq> 1 \<and>
   splitCell (1, 0) 0 (cellStore splitWorld, 1, []) =
     (fst (splitCell (1, 0) 0 (cellStore splitWorld, 1, [])), 1 + 1, [] @ [1]) \<and>
   radius (fst (splitCell (1, 0) 0 (cellStore splitWorld, 1, [])) 0) =
     radius (cellStore splitWorld 0) * 0.5 \<and>
   radius (fst (splitCell (1, 0) 0 (cellStore splitWorld, 1, [])) 1) =
     radius (cellStore splitWorld 0) * 0.5 \<and>
   cellAreaFromRadius (radius (fst (splitCell (1, 0) 0 (cellStore splitWorld, 1, [])) 0)) +
   cellAreaFromRadius (radius (fst (splitCell (1, 0) 0 (cellStore splitWorld, 1, [])) 1)) =
     cellAreaFromRadius (radius (cellStore splitWorld 0)) / 2"
proof -
  have h: "radius (cellStore splitWorld 0) \<ge> 10"
    by (simp add: splitWorld_def restingCell_def)
  have n: "(0::nat) \<noteq> 1" by simp
  show ?thesis
    using split_halves_total_area [where st = "cellStore splitWorld" and r = 0 and nxt = 1
        and dir = "(1, 0)" and newCells = "[]", OF h n] h n
    by blast
qed

text \<open>
  C2 as claimed fails: a player with one cell of radius 40 and direction (1, 0) ends with
  two cells of radius 20, whose areas do not add up to the area of the original cell.
\<close>

theorem split_area_counterexample:
  "radius (cellStore splitWorld 0) \<ge> 10 \<and>
   cells (players (splitPlayer 0 splitWorld) ! 0) = [0, 1] \<and>
   cellAreaFromRadius (radius (cellStore (splitPlayer 0 splitWorld) 0)) +
   cellAreaFromRadius (radius (cellStore (splitPlayer 0 splitWorld) 1)) \<noteq>
     cellAreaFromRadius (radius (cellStore splitWorld 0))"
proof -
  have "cellAreaFromRadius 20 + cellAreaFromRadius 20 \<noteq> cellAreaFromRadius 40"
    by (simp add: cellAreaFromRadius_def)
  then show ?thesis
    using splitWorld_result by (simp add: splitWorld_def restingCell_def)
qed

section \<open>Movement\<close>

text \<open>
  C5, as the program has it. Within the movement of one cell the position is integrated
  with the velocity that \<open>accelerate\<close> leaves, before drag; the stored velocity is that
  velocity times 0.86; the clamp to the world bounds is the last change of the position.
\<close>

theorem movement_order:
  "c_vx (moveCell dt p c) = c_vx (accelerate dt p c) * 0.86 \<and>
   c_vy (moveCell dt p c) = c_vy (accelerate dt p c) * 0.86 \<and>
   c_x (moveCell dt p c) =
     max (- (WORLD_SIZE / 2) + radius c)
       (min (WORLD_SIZE / 2 - radius c) (c_x c + c_vx (accelerate dt p c) * dt)) \<and>
   c_y (moveCell dt p c) =
     max (- (WORLD_SIZE / 2) + radius c)
       (min (WORLD_SIZE / 2 - radius c) (c_y c + c_vy (accelerate dt p c) * dt))"
proof -
  have r: "radius (accelerate dt p c) = radius c"
    and px: "c_x (accelerate dt p c) = c_x c" and py: "c_y (accelerate dt p c) = c_y c"
    by (simp_all add: accelerate_def Let_def)
  show ?thesis by (simp add: moveCell_def Let_def r px py)
qed

lemma drifting_accelerate:
  "accelerate (1 / 20) (humanPlayer 1 [0] (0, 0)) driftingCell = driftingCell"
  by (simp add: accelerate_def Let_def humanPlayer_def driftingCell_def hypotOr1_zero)

text \<open>
  C5 as claimed fails: a cell at the origin with velocity 100 along x, no input and
  \<open>dt = 1/20\<close> ends at \<open>x = 5\<close> with velocity 86; with the velocity after drag the
  position would be 4.3.
\<close>

theorem movement_order_counterexample:
  "c_vx (moveCell (1 / 20) (humanPlayer 1 [0] (0, 0)) driftingCell) = 86 \<and>
   c_x (moveCell (1 / 20) (humanPlayer 1 [0] (0, 0)) driftingCell) = 5 \<and>
   c_x (moveCell (1 / 20) (humanPlayer 1 [0] (0, 0)) driftingCell) \<noteq>
     c_x driftingCell + c_vx (moveCell (1 / 20) (humanPlayer 1 [0] (0, 0)) driftingCell) * (1 / 20)"
  unfolding moveCell_def Let_def drifting_accelerate
  by (simp add: driftingCell_def WORLD_SIZE_def)

section \<open>Cell against cell\<close>

lemma withinEatingDistance_iff:
  "withinEatingDistance a b \<longleftrightarrow>
     (c_x a - c_x b)\<^sup>2 + (c_y a - c_y b)\<^sup>2 < (radius a - radius b * 0.25)\<^sup>2"
  by (simp add: withinEatingDistance_def Let_def power2_eq_square)

lemma eatCell_cases:
  "eatCell items n other w =
     (if i_player (items ! n) \<noteq> i_player (items ! other) \<and>
         radius (cellStore w (i_cell (items ! n))) > radius (cellStore w (i_cell (items ! other))) * 1.15 \<and>
         withinEatingDistance (cellStore w (i_cell (items ! n))) (cellStore w (i_cell (items ! other)))
      then w\<lparr>cellStore := (cellStore w)(i_cell (items ! n) :=
                 (cellStore w (i_cell (items ! n)))\<lparr>radius := radiusFromArea
                    (cellAreaFromRadius (radius (cellStore w (i_cell (items ! n)))) +
                     cellAreaFromRadius (radius (cellStore w (i_cell (items ! other)))))\<rparr>),
             players := (players w)[i_player (items ! other) :=
                 (players w ! i_player (items ! other))\<lparr>cells :=
                    removeCell (i_cell (items ! other)) (cells (players w ! i_player (items ! other)))\<rparr>]\<rparr>
      else w)"
  by (auto simp: eatCell_def Let_def)

definition nearMissWorld :: world where
  "nearMissWorld =
     twoPlayerWorld\<lparr>cellStore := (\<lambda>r. if r = 0 then restingCell 0 0 10 0 else restingCell 0 0 9 0)\<rparr>"

text \<open>Three players: a cell of radius 12 and a cell of radius 40, both within eating distance
  of a third player's cell of radius 9. The snapshot of the pass holds all three;
  \<open>staleWorld\<close> is the world after the first of them has eaten the small cell.\<close>

definition threeItems :: "item list" where
  "threeItems =
     [\<lparr>i_player = 0, i_cell = 0, i_x = 0, i_y = 0, i_radius = 12\<rparr>,
      \<lparr>i_player = 1, i_cell = 1, i_x = 5, i_y = 0, i_radius = 9\<rparr>,
      \<lparr>i_player = 2, i_cell = 2, i_x = 40, i_y = 0, i_radius = 40\<rparr>]"

definition threePlayerWorld :: world where
  "threePlayerWorld =
     \<lparr>players = [humanPlayer 1 [0] (0, 0), humanPlayer 2 [1] (0, 0), humanPlayer 3 [2] (0, 0)],
      foods = sixtyPellets, viruses = twentyViruses,
      cellStore = (\<lambda>r. if r = 0 then restingCell 0 0 12 0
                     else if r = 1 then restingCell 5 0 9 0 else restingCell 40 0 40 0),
      nextCell = 3, nextPlayerId = 4, nextFoodId = 61, nextVirusId = 21, cursor = 0\<rparr>"

definition staleWorld :: world where
  "staleWorld = eatCell threeItems 0 1 threePlayerWorld"

lemma staleWorld_first_eat:
  "cells (players staleWorld ! 1) = [] \<and>
   cells (players threePlayerWorld ! 1) = [1] \<and>
   cellStore staleWorld 1 = restingCell 5 0 9 0 \<and>
   cellStore staleWorld 2 = restingCell 40 0 40 0"
  by (simp add: staleWorld_def eatCell_def Let_def threeItems_def threePlayerWorld_def
      humanPlayer_def restingCell_def withinEatingDistance_def removeCell_def)

lemma twoPlayerWorld_eats:
  "(0 < radius (cellStore twoPlayerWorld (i_cell (twoPlayerItems ! 1))) \<and>
    (i_player (twoPlayerItems ! 0) \<noteq> i_player (twoPlayerItems ! 1) \<and>
      radius (cellStore twoPlayerWorld (i_cell (twoPlayerItems ! 0))) > radius (cellStore twoPlayerWorld (i_cell (twoPlayerItems ! 1))) * 1.15 \<and>
      (c_x (cellStore twoPlayerWorld (i_cell (twoPlayerItems ! 0))) - c_x (cellStore twoPlayerWorld (i_cell (twoPlayerItems ! 1))))\<^sup>2 + (c_y (cellStore twoPlayerWorld (i_cell (twoPlayerItems ! 0))) - c_y (cellStore twoPlayerWorld (i_cell (twoPlayerItems ! 1))))\<^sup>2
        < (radius (cellStore twoPlayerWorld (i_cell (twoPlayerItems ! 0))) - radius (cellStore twoPlayerWorld (i_cell (twoPlayerItems ! 1))) * 0.25)\<^sup>2) \<and>
    i_player (twoPlayerItems ! 1) < length (players twoPlayerWorld) \<and>
    i_cell (twoPlayerItems ! 1) \<in> set (cells (players twoPlayerWorld ! i_player (twoPlayerItems ! 1))) \<and>
    distinct (cells (players twoPlayerWorld ! i_player (twoPlayerItems ! 1))) \<and>
    (i_player (twoPlayerItems ! 0) \<noteq> i_player (twoPlayerItems ! 1) \<and> radius (cellStore twoPlayerWorld (i_cell (twoPlayerItems ! 0))) = 12 \<and> radius (cellStore twoPlayerWorld (i_cell (twoPlayerItems ! 1))) = 10 \<and>
      (c_x (cellStore twoPlayerWorld (i_cell (twoPlayerItems ! 0))) - c_x (cellStore twoPlayerWorld (i_cell (twoPlayerItems ! 1))))\<^sup>2 + (c_y (cellStore twoPlayerWorld (i_cell (twoPlayerItems ! 0))) - c_y (cellStore twoPlayerWorld (i_cell (twoPlayerItems ! 1))))\<^sup>2 < (12 - 10 * 0.25)\<^sup>2))"
  by (simp add: twoPlayerItems_def twoPlayerWorld_def humanPlayer_def restingCell_def
      power2_eq_square)

lemma nearMissWorld_radii:
  "(radius (cellStore nearMissWorld (i_cell (twoPlayerItems ! 0))) = 10 \<and> radius (cellStore nearMissWorld (i_cell (twoPlayerItems ! 1))) = 9)"
  by (simp add: twoPlayerItems_def nearMissWorld_def twoPlayerWorld_def restingCell_def)

lemma staleWorld_second_eat:
  "((i_player (threeItems ! 2) \<noteq> i_player (threeItems ! 1) \<and>
      radius (cellStore staleWorld (i_cell (threeItems ! 2))) > radius (cellStore staleWorld (i_cell (threeItems ! 1))) * 1.15 \<and>
      (c_x (cellStore staleWorld (i_cell (threeItems ! 2))) - c_x (cellStore staleWorld (i_cell (threeItems ! 1))))\<^sup>2 + (c_y (cellStore staleWorld (i_cell (threeItems ! 2))) - c_y (cellStore staleWorld (i_cell (threeItems ! 1))))\<^sup>2
        < (radius (cellStore staleWorld (i_cell (threeItems ! 2))) - radius (cellStore staleWorld (i_cell (threeItems ! 1))) * 0.25)\<^sup>2) \<and>
    i_cell (threeItems ! 1) \<notin> set (cells (players staleWorld ! i_player (threeItems ! 1))))"
  using staleWorld_first_eat
  by (simp add: threeItems_def restingCell_def power2_eq_square)

text \<open>
  C3. For every candidate B that the broad phase returns for the entry A, whether B is
  still held by its owner or has already been eaten earlier in the same pass, the step of
  the cell pass takes its eating branch exactly when B belongs to another player, A's
  radius exceeds 1.15 times B's radius and the squared distance of the centres is below
  the square of A's radius minus a quarter of B's radius; otherwise it leaves the world as
  it is. In the eating branch A gets the radius of the summed areas and the first
  occurrence of B is removed from its owner's array. So, for a candidate of positive
  radius, A grows exactly under the three conditions; a candidate still held by its owner
  (whose array has no duplicates) is gone from that array exactly under them; and a
  candidate no longer held by its owner is eaten again under the same conditions: the
  owner's array stays as it is and A is credited with B's area once more. A cell of radius
  10 leaves a cell of radius 9 alone; a cell of radius 12 within eating distance of
  another player's cell of radius 10 eats it.
\<close>

theorem cell_eats_iff:
  "eatCell items n other w = (if (i_player (items ! n) \<noteq> i_player (items ! other) \<and>
      radius (cellStore w (i_cell (items ! n))) > radius (cellStore w (i_cell (items ! other))) * 1.15 \<and>
      (c_x (cellStore w (i_cell (items ! n))) - c_x (cellStore w (i_cell (items ! other))))\<^sup>2 + (c_y (cellStore w (i_cell (items ! n))) - c_y (cellStore w (i_cell (items ! other))))\<^sup>2
        < (radius (cellStore w (i_cell (items ! n))) - radius (cellStore w (i_cell (items ! other))) * 0.25)\<^sup>2) then (w\<lparr>cellStore := (cellStore w)(i_cell (items ! n) := (cellStore w (i_cell (items ! n)))\<lparr>radius := radiusFromArea (cellAreaFromRadius (radius (cellStore w (i_cell (items ! n)))) + cellAreaFromRadius (radius (cellStore w (i_cell (items ! other)))))\<rparr>),
        players := (players w)[i_player (items ! other) := (players w ! i_player (items ! other))\<lparr>cells :=
          removeCell (i_cell (items ! other)) (cells (players w ! i_player (items ! other)))\<rparr>]\<rparr>) else w)
   \<and>
   (0 < radius (cellStore w (i_cell (items ! other))) \<longrightarrow>
      (radius (cellStore w (i_cell (items ! n))) < radius (cellStore (eatCell items n other w) (i_cell (items ! n))) \<longleftrightarrow> (i_player (items ! n) \<noteq> i_player (items ! other) \<and>
      radius (cellStore w (i_cell (items ! n))) > radius (cellStore w (i_cell (items ! other))) * 1.15 \<and>
      (c_x (cellStore w (i_cell (items ! n))) - c_x (cellStore w (i_cell (items ! other))))\<^sup>2 + (c_y (cellStore w (i_cell (items ! n))) - c_y (cellStore w (i_cell (items ! other))))\<^sup>2
        < (radius (cellStore w (i_cell (items ! n))) - radius (cellStore w (i_cell (items ! other))) * 0.25)\<^sup>2)))
   \<and>
   ((i_player (items ! n) \<noteq> i_player (items ! other) \<and>
      radius (cellStore w (i_cell (items ! n))) > radius (cellStore w (i_cell (items ! other))) * 1.15 \<and>
      (c_x (cellStore w (i_cell (items ! n))) - c_x (cellStore w (i_cell (items ! other))))\<^sup>2 + (c_y (cellStore w (i_cell (items ! n))) - c_y (cellStore w (i_cell (items ! other))))\<^sup>2
        < (radius (cellStore w (i_cell (items ! n))) - radius (cellStore w (i_cell (items ! other))) * 0.25)\<^sup>2) \<and> i_player (items ! other) < length (players w) \<and> distinct (cells (players w ! i_player (items ! other))) \<longrightarrow>
      i_cell (items ! other) \<notin> set (cells (players (eatCell items n other w) ! i_player (items ! other))))
   \<and>
   (i_player (items ! other) < length (players w) \<and> i_cell (items ! other) \<in> set (cells (players w ! i_player (items ! other))) \<and> distinct (cells (players w ! i_player (items ! other))) \<longrightarrow>
      (i_cell (items ! other) \<notin> set (cells (players (eatCell items n other w) ! i_player (items ! other))) \<longleftrightarrow> (i_player (items ! n) \<noteq> i_player (items ! other) \<and>
      radius (cellStore w (i_cell (items ! n))) > radius (cellStore w (i_cell (items ! other))) * 1.15 \<and>
      (c_x (cellStore w (i_cell (items ! n))) - c_x (cellStore w (i_cell (items ! other))))\<^sup>2 + (c_y (cellStore w (i_cell (items ! n))) - c_y (cellStore w (i_cell (items ! other))))\<^sup>2
        < (radius (cellStore w (i_cell (items ! n))) - radius (cellStore w (i_cell (items ! other))) * 0.25)\<^sup>2)))
   \<and>
   ((i_player (items ! n) \<noteq> i_player (items ! other) \<and>
      radius (cellStore w (i_cell (items ! n))) > radius (cellStore w (i_cell (items ! other))) * 1.15 \<and>
      (c_x (cellStore w (i_cell (items ! n))) - c_x (cellStore w (i_cell (items ! other))))\<^sup>2 + (c_y (cellStore w (i_cell (items ! n))) - c_y (cellStore w (i_cell (items ! other))))\<^sup>2
        < (radius (cellStore w (i_cell (items ! n))) - radius (cellStore w (i_cell (items ! other))) * 0.25)\<^sup>2) \<and> i_cell (items ! other) \<notin> set (cells (players w ! i_player (items ! other))) \<longrightarrow>
      players (eatCell items n other w) = players w \<and> radius (cellStore (eatCell items n other w) (i_cell (items ! n))) = radiusFromArea (cellAreaFromRadius (radius (cellStore w (i_cell (items ! n)))) + cellAreaFromRadius (radius (cellStore w (i_cell (items ! other))))))
   \<and>
   (radius (cellStore w (i_cell (items ! n))) = 10 \<and> radius (cellStore w (i_cell (items ! other))) = 9 \<longrightarrow> eatCell items n other w = w)
   \<and>
   ((i_player (items ! n) \<noteq> i_player (items ! other) \<and> radius (cellStore w (i_cell (items ! n))) = 12 \<and> radius (cellStore w (i_cell (items ! other))) = 10 \<and>
      (c_x (cellStore w (i_cell (items ! n))) - c_x (cellStore w (i_cell (items ! other))))\<^sup>2 + (c_y (cellStore w (i_cell (items ! n))) - c_y (cellStore w (i_cell (items ! other))))\<^sup>2 < (12 - 10 * 0.25)\<^sup>2) \<longrightarrow> eatCell items n other w = (w\<lparr>cellStore := (cellStore w)(i_cell (items ! n) := (cellStore w (i_cell (items ! n)))\<lparr>radius := radiusFromArea (cellAreaFromRadius (radius (cellStore w (i_cell (items ! n)))) + cellAreaFromRadius (radius (cellStore w (i_cell (items ! other)))))\<rparr>),
        players := (players w)[i_player (items ! other) := (players w ! i_player (items ! other))\<lparr>cells :=
          removeCell (i_cell (items ! other)) (cells (players w ! i_player (items ! other)))\<rparr>]\<rparr>))"
proof -
  let ?pB = "i_player (items ! other)" and ?cB = "i_cell (items ! other)"
  let ?cA = "i_cell (items ! n)"
  let ?a = "cellStore w (i_cell (items ! n))" and ?b = "cellStore w (i_cell (items ! other))"
  let ?cond = "i_player (items ! n) \<noteq> ?pB \<and> radius ?a > radius ?b * 1.15 \<and>
               withinEatingDistance ?a ?b"
  let ?consumed = "(w\<lparr>cellStore := (cellStore w)(i_cell (items ! n) := (cellStore w (i_cell (items ! n)))\<lparr>radius := radiusFromArea (cellAreaFromRadius (radius (cellStore w (i_cell (items ! n)))) + cellAreaFromRadius (radius (cellStore w (i_cell (items ! other)))))\<rparr>),
        players := (players w)[i_player (items ! other) := (players w ! i_player (items ! other))\<lparr>cells :=
          removeCell (i_cell (items ! other)) (cells (players w ! i_player (items ! other)))\<rparr>]\<rparr>)"
  have yes: "eatCell items n other w = ?consumed" if ?cond
    by (subst eatCell_cases, subst if_P [OF that], rule refl)
  have no: "eatCell items n other w = w" if "\<not> ?cond"
    by (subst eatCell_cases, subst if_not_P [OF that], rule refl)
  have one: "eatCell items n other w = (if ?cond then ?consumed else w)"
    using yes no by (cases ?cond) simp_all
  have grown: "radius (cellStore (eatCell items n other w) ?cA) =
      radiusFromArea (cellAreaFromRadius (radius ?a) + cellAreaFromRadius (radius ?b))" if ?cond
    by (subst yes [OF that]) simp
  have two: "radius ?a < radius (cellStore (eatCell items n other w) ?cA) \<longleftrightarrow> ?cond"
    if "0 < radius ?b"
  proof (cases ?cond)
    case True
    then show ?thesis
      using grown [OF True] radius_grows_strictly [of "radius ?b" "radius ?a"] that by simp
  next
    case False
    then show ?thesis using no [OF False] by simp
  qed
  have gone: "?cB \<notin> set (cells (players (eatCell items n other w) ! ?pB))"
    if ?cond and "?pB < length (players w)" and "distinct (cells (players w ! ?pB))"
    by (subst yes [OF that(1)]) (use that(2,3) in \<open>simp add: removeCell_def\<close>)
  have iff: "?cB \<notin> set (cells (players (eatCell items n other w) ! ?pB)) \<longleftrightarrow> ?cond"
    if "?pB < length (players w)" and "?cB \<in> set (cells (players w ! ?pB))"
      and "distinct (cells (players w ! ?pB))"
  proof (cases ?cond)
    case True
    then show ?thesis using gone [OF True that(1,3)] by simp
  next
    case False
    then show ?thesis using no [OF False] that(2) by simp
  qed
  have stale: "players (eatCell items n other w) = players w"
    if ?cond and "?cB \<notin> set (cells (players w ! ?pB))"
    by (subst yes [OF that(1)]) (use that(2) in \<open>simp add: removeCell_def remove1_idem\<close>)
  have small: "eatCell items n other w = w" if "radius ?a = 10 \<and> radius ?b = 9"
    using that by (intro no) simp
  have big: "eatCell items n other w = ?consumed"
    if "i_player (items ! n) \<noteq> ?pB \<and> radius ?a = 12 \<and> radius ?b = 10 \<and>
        (c_x ?a - c_x ?b)\<^sup>2 + (c_y ?a - c_y ?b)\<^sup>2 < (12 - 10 * 0.25)\<^sup>2"
    using that by (intro yes) (simp add: withinEatingDistance_iff)
  show ?thesis
    using one two gone iff stale grown small big unfolding withinEatingDistance_iff by blast
qed

theorem cell_eats_iff_witness:
  "(0 < radius (cellStore twoPlayerWorld (i_cell (twoPlayerItems ! 1))) \<and>
    (i_player (twoPlayerItems ! 0) \<noteq> i_player (twoPlayerItems ! 1) \<and>
      radius (cellStore twoPlayerWorld (i_cell (twoPlayerItems ! 0))) > radius (cellStore twoPlayerWorld (i_cell (twoPlayerItems ! 1))) * 1.15 \<and>
      (c_x (cellStore twoPlayerWorld (i_cell (twoPlayerItems ! 0))) - c_x (cellStore twoPlayerWorld (i_cell (twoPlayerItems ! 1))))\<^sup>2 + (c_y (cellStore twoPlayerWorld (i_cell (twoPlayerItems ! 0))) - c_y (cellStore twoPlayerWorld (i_cell (twoPlayerItems ! 1))))\<^sup>2
        < (radius (cellStore twoPlayerWorld (i_cell (twoPlayerItems ! 0))) - radius (cellStore twoPlayerWorld (i_cell (twoPlayerItems ! 1))) * 0.25)\<^sup>2) \<and>
    i_player (twoPlayerItems ! 1) < length (players twoPlayerWorld) \<and>
    i_cell (twoPlayerItems ! 1) \<in> set (cells (players twoPlayerWorld ! i_player (twoPlayerItems ! 1))) \<and>
    distinct (cells (players twoPlayerWorld ! i_player (twoPlayerItems ! 1))) \<and>
    (i_player (twoPlayerItems ! 0) \<noteq> i_player (twoPlayerItems ! 1) \<and> radius (cellStore twoPlayerWorld (i_cell (twoPlayerItems ! 0))) = 12 \<and> radius (cellStore twoPlayerWorld (i_cell (twoPlayerItems ! 1))) = 10 \<and>
      (c_x (cellStore twoPlayerWorld (i_cell (twoPlayerItems ! 0))) - c_x (cellStore twoPlayerWorld (i_cell (twoPlayerItems ! 1))))\<^sup>2 + (c_y (cellStore twoPlayerWorld (i_cell (twoPlayerItems ! 0))) - c_y (cellStore twoPlayerWorld (i_cell (twoPlayerItems ! 1))))\<^sup>2 < (12 - 10 * 0.25)\<^sup>2)) \<and>
   radius (cellStore twoPlayerWorld (i_cell (twoPlayerItems ! 0))) < radius (cellStore (eatCell twoPlayerItems 0 1 twoPlayerWorld) (i_cell (twoPlayerItems ! 0))) \<and>
   i_cell (twoPlayerItems ! 1) \<notin> set (cells (players (eatCell twoPlayerItems 0 1 twoPlayerWorld) ! i_player (twoPlayerItems ! 1))) \<and>
   eatCell twoPlayerItems 0 1 twoPlayerWorld = (twoPlayerWorld\<lparr>cellStore := (cellStore twoPlayerWorld)(i_cell (twoPlayerItems ! 0) := (cellStore twoPlayerWorld (i_cell (twoPlayerItems ! 0)))\<lparr>radius := radiusFromArea (cellAreaFromRadius (radius (cellStore twoPlayerWorld (i_cell (twoPlayerItems ! 0)))) + cellAreaFromRadius (radius (cellStore twoPlayerWorld (i_cell (twoPlayerItems ! 1)))))\<rparr>),
        players := (players twoPlayerWorld)[i_player (twoPlayerItems ! 1) := (players twoPlayerWorld ! i_player (twoPlayerItems ! 1))\<lparr>cells :=
          removeCell (i_cell (twoPlayerItems ! 1)) (cells (players twoPlayerWorld ! i_player (twoPlayerItems ! 1)))\<rparr>]\<rparr>) \<and>
   (radius (cellStore nearMissWorld (i_cell (twoPlayerItems ! 0))) = 10 \<and> radius (cellStore nearMissWorld (i_cell (twoPlayerItems ! 1))) = 9) \<and>
   eatCell twoPlayerItems 0 1 nearMissWorld = nearMissWorld \<and>
   ((i_player (threeItems ! 2) \<noteq> i_player (threeItems ! 1) \<and>
      radius (cellStore staleWorld (i_cell (threeItems ! 2))) > radius (cellStore staleWorld (i_cell (threeItems ! 1))) * 1.15 \<and>
      (c_x (cellStore staleWorld (i_cell (threeItems ! 2))) - c_x (cellStore staleWorld (i_cell (threeItems ! 1))))\<^sup>2 + (c_y (cellStore staleWorld (i_cell (threeItems ! 2))) - c_y (cellStore staleWorld (i_cell (threeItems ! 1))))\<^sup>2
        < (radius (cellStore staleWorld (i_cell (threeItems ! 2))) - radius (cellStore staleWorld (i_cell (threeItems ! 1))) * 0.25)\<^sup>2) \<and>
    i_cell (threeItems ! 1) \<notin> set (cells (players staleWorld ! i_player (threeItems ! 1)))) \<and>
   players (eatCell threeItems 2 1 staleWorld) = players staleWorld \<and>
   radius (cellStore (eatCell threeItems 2 1 staleWorld) (i_cell (threeItems ! 2))) = radiusFromArea (cellAreaFromRadius (radius (cellStore staleWorld (i_cell (threeItems ! 2)))) + cellAreaFromRadius (radius (cellStore staleWorld (i_cell (threeItems ! 1)))))"
proof -
  note t1 = cell_eats_iff [where items = twoPlayerItems and n = 0 and other = 1
      and w = twoPlayerWorld]
  note t2 = cell_eats_iff [where items = twoPlayerItems and n = 0 and other = 1
      and w = nearMissWorld]
  note t3 = cell_eats_iff [where items = threeItems and n = 2 and other = 1 and w = staleWorld]
  note h1 = twoPlayerWorld_eats and h2 = nearMissWorld_radii and h3 = staleWorld_second_eat
  have a1: "radius (cellStore twoPlayerWorld (i_cell (twoPlayerItems ! 0))) < radius (cellStore (eatCell twoPlayerItems 0 1 twoPlayerWorld) (i_cell (twoPlayerItems ! 0)))"
    using t1 [THEN conjunct2, THEN conjunct1] h1 by blast
  have a2: "i_cell (twoPlayerItems ! 1) \<notin> set (cells (players (eatCell twoPlayerItems 0 1 twoPlayerWorld) ! i_player (twoPlayerItems ! 1)))"
    using t1 [THEN conjunct2, THEN conjunct2, THEN conjunct1] h1 by blast
  have a3: "eatCell twoPlayerItems 0 1 twoPlayerWorld = (twoPlayerWorld\<lparr>cellStore := (cellStore twoPlayerWorld)(i_cell (twoPlayerItems ! 0) := (cellStore twoPlayerWorld (i_cell (twoPlayerItems ! 0)))\<lparr>radius := radiusFromArea (cellAreaFromRadius (radius (cellStore twoPlayerWorld (i_cell (twoPlayerItems ! 0)))) + cellAreaFromRadius (radius (cellStore twoPlayerWorld (i_cell (twoPlayerItems ! 1)))))\<rparr>),
        players := (players twoPlayerWorld)[i_player (twoPlayerItems ! 1) := (players twoPlayerWorld ! i_player (twoPlayerItems ! 1))\<lparr>cells :=
          removeCell (i_cell (twoPlayerItems ! 1)) (cells (players twoPlayerWorld ! i_player (twoPlayerItems ! 1)))\<rparr>]\<rparr>)"
    using t1 [THEN conjunct2, THEN conjunct2, THEN conjunct2, THEN conjunct2, THEN conjunct2,
        THEN conjunct2] h1 by blast
  have b1: "eatCell twoPlayerItems 0 1 nearMissWorld = nearMissWorld"
    using t2 [THEN conjunct2, THEN conjunct2, THEN conjunct2, THEN conjunct2, THEN conjunct2,
        THEN conjunct1] h2 by blast
  have c1: "players (eatCell threeItems 2 1 staleWorld) = players staleWorld \<and>
   radius (cellStore (eatCell threeItems 2 1 staleWorld) (i_cell (threeItems ! 2))) = radiusFromArea (cellAreaFromRadius (radius (cellStore staleWorld (i_cell (threeItems ! 2)))) + cellAreaFromRadius (radius (cellStore staleWorld (i_cell (threeItems ! 1)))))"
    using t3 [THEN conjunct2, THEN conjunct2, THEN conjunct2, THEN conjunct2, THEN conjunct1] h3
    by blast
  show ?thesis
    by (rule conjI [OF h1 conjI [OF a1 conjI [OF a2 conjI [OF a3 conjI [OF h2 conjI [OF b1
          conjI [OF h3 c1]]]]]]])
qed

section \<open>The merge sweep\<close>

lemma splice1_keeps:
  assumes "r \<in> set cs" and "r \<noteq> cs ! j"
  shows "r \<in> set (splice1 j cs)"
proof -
  from assms(1) obtain k where k: "k < length cs" "cs ! k = r"
    by (auto simp: in_set_conv_nth)
  with assms(2) have kj: "k \<noteq> j" by auto
  show ?thesis
  proof (cases "k < j")
    case True
    then have "r \<in> set (take j cs)" using k by (auto simp: in_set_conv_nth)
    then show ?thesis by (simp add: splice1_def)
  next
    case False
    with kj have "Suc j \<le> k" by simp
    then have "r \<in> set (drop (Suc j) cs)"
      using k by (auto simp: in_set_conv_nth intro!: exI[of _ "k - Suc j"])
    then show ?thesis by (simp add: splice1_def)
  qed
qed

lemma splice1_subset: "set (splice1 j cs) \<subseteq> set cs"
  by (auto simp: splice1_def dest: in_set_takeD in_set_dropD)

lemma mergePair_cases:
  "mergePair i j (st, cs) =
     (if mergeTimer (st (cs ! i)) \<le> 0 \<and> mergeTimer (st (cs ! j)) \<le> 0 \<and>
         overlapping (st (cs ! i)) (st (cs ! j))
      then ((st(cs ! i := (st (cs ! i))\<lparr>radius := radiusFromArea
               (cellAreaFromRadius (radius (st (cs ! i))) +
                cellAreaFromRadius (radius (st (cs ! j))))\<rparr>), splice1 j cs), True)
      else ((st, cs), False))"
  by (auto simp: mergePair_def Let_def)

lemma mergePair_gated:
  assumes "r \<in> set cs" and "mergeTimer (st r) > 0"
  shows "r \<in> set (snd (fst (mergePair i j (st, cs)))) \<and> fst (fst (mergePair i j (st, cs))) r = st r"
proof (cases "mergeTimer (st (cs ! i)) \<le> 0 \<and> mergeTimer (st (cs ! j)) \<le> 0 \<and>
         overlapping (st (cs ! i)) (st (cs ! j))")
  case True
  then have "r \<noteq> cs ! i" "r \<noteq> cs ! j" using assms(2) by auto
  then show ?thesis
    unfolding mergePair_cases if_P [OF True] using assms(1) by (simp add: splice1_keeps)
next
  case False
  show ?thesis
    unfolding mergePair_cases if_not_P [OF False] using assms(1) by simp
qed

lemma mergeLoop_gated:
  "r \<in> set (snd s) \<Longrightarrow> mergeTimer (fst s r) > 0 \<Longrightarrow>
     r \<in> set (snd (mergeLoop i j s)) \<and> fst (mergeLoop i j s) r = fst s r"
proof (induction i j s rule: mergeLoop.induct)
  case (1 i j s)
  obtain st cs where s: "s = (st, cs)" by (cases s)
  show ?case
  proof (cases "i < length (snd s)")
    case False
    then show ?thesis using "1.prems" by (subst (1 2) mergeLoop.simps) simp
  next
    case i: True
    show ?thesis
    proof (cases "j < length (snd s)")
      case False
      then show ?thesis
        using i "1.IH"(3) "1.prems" by (subst (1 2) mergeLoop.simps) simp
    next
      case j: True
      define r' where "r' = mergePair i j s"
      have g: "r \<in> set (snd (fst r')) \<and> fst (fst r') r = fst s r"
        using mergePair_gated[of r cs st i j] "1.prems" by (simp add: s r'_def)
      then have t: "mergeTimer (fst (fst r') r) > 0" using "1.prems" by simp
      show ?thesis
      proof (cases "snd r'")
        case True
        have "r \<in> set (snd (mergeLoop i j (fst r'))) \<and> fst (mergeLoop i j (fst r')) r = fst (fst r') r"
          using "1.IH"(1)[OF i j r'_def True] g t by simp
        then show ?thesis
          using i j True g by (subst (1 2) mergeLoop.simps) (simp add: r'_def[symmetric] Let_def)
      next
        case False
        have "r \<in> set (snd (mergeLoop i (j + 1) (fst r'))) \<and>
              fst (mergeLoop i (j + 1) (fst r')) r = fst (fst r') r"
          using "1.IH"(2)[OF i j r'_def False] g t by simp
        then show ?thesis
          using i j False g by (subst (1 2) mergeLoop.simps) (simp add: r'_def[symmetric] Let_def)
      qed
    qed
  qed
qed

lemma mergeLoop_merge:
  "i < length cs \<Longrightarrow> j < length cs \<Longrightarrow> mergePair i j (st, cs) = (s', True) \<Longrightarrow>
     mergeLoop i j (st, cs) = mergeLoop i j s'"
  by (subst mergeLoop.simps) simp

lemma mergeLoop_skip:
  "i < length cs \<Longrightarrow> j < length cs \<Longrightarrow> mergePair i j (st, cs) = (s', False) \<Longrightarrow>
     mergeLoop i j (st, cs) = mergeLoop i (Suc j) s'"
  by (subst mergeLoop.simps) simp

lemma mergeLoop_row:
  "i < length cs \<Longrightarrow> \<not> j < length cs \<Longrightarrow>
     mergeLoop i j (st, cs) = mergeLoop (Suc i) (Suc (Suc i)) (st, cs)"
  by (subst mergeLoop.simps) simp

lemma mergeLoop_done: "\<not> i < length cs \<Longrightarrow> mergeLoop i j (st, cs) = (st, cs)"
  by (subst mergeLoop.simps) simp

lemma overlapping_iff:
  "overlapping a b \<longleftrightarrow>
     (c_x a - c_x b)\<^sup>2 + (c_y a - c_y b)\<^sup>2 < (radius a + radius b)\<^sup>2"
  by (simp add: overlapping_def Let_def power2_eq_square)

lemma mergeLoop_two_cells:
  assumes "mergeTimer (st p) \<le> 0" and "mergeTimer (st q) \<le> 0" and "overlapping (st p) (st q)"
  shows "mergeLoop 0 1 (st, [p, q]) =
           (st(p := (st p)\<lparr>radius := radiusFromArea
                 (cellAreaFromRadius (radius (st p)) + cellAreaFromRadius (radius (st q)))\<rparr>), [p])"
proof -
  let ?st = "st(p := (st p)\<lparr>radius := radiusFromArea
                 (cellAreaFromRadius (radius (st p)) + cellAreaFromRadius (radius (st q)))\<rparr>)"
  have pair: "mergePair 0 (Suc 0) (st, [p, q]) = ((?st, [p]), True)"
    using assms by (simp add: mergePair_cases splice1_def)
  have "mergeLoop 0 (Suc 0) (st, [p, q]) = mergeLoop 0 (Suc 0) (?st, [p])"
    by (rule mergeLoop_merge [OF _ _ pair]) simp_all
  also have "\<dots> = mergeLoop (Suc 0) (Suc (Suc 0)) (?st, [p])"
    by (rule mergeLoop_row) simp_all
  also have "\<dots> = (?st, [p])"
    by (rule mergeLoop_done) simp
  finally show ?thesis by simp
qed

lemma radius_grows: "r1 \<le> radiusFromArea (cellAreaFromRadius r1 + cellAreaFromRadius r2)"
  unfolding radiusFromArea_sum by (rule real_sqrt_sum_squares_ge1)

lemma overlapping_mono:
  assumes "overlapping a b"
    and "c_x a' = c_x a" "c_y a' = c_y a" "radius a \<le> radius a'"
    and "c_x b' = c_x b" "c_y b' = c_y b" "radius b \<le> radius b'"
    and "0 \<le> radius a" "0 \<le> radius b"
  shows "overlapping a' b'"
proof -
  have "(radius a + radius b)\<^sup>2 \<le> (radius a' + radius b')\<^sup>2"
    using assms by (intro power_mono) simp_all
  then show ?thesis
    using assms(1) by (simp add: overlapping_iff assms)
qed

text \<open>Two cells that are due to merge: both timers ran out, they overlap, and their
  radii are not negative.\<close>

definition dueToMerge :: "(nat \<Rightarrow> cell) \<Rightarrow> nat \<Rightarrow> nat \<Rightarrow> bool" where
  "dueToMerge st a b \<longleftrightarrow>
     mergeTimer (st a) \<le> 0 \<and> mergeTimer (st b) \<le> 0 \<and> overlapping (st a) (st b) \<and>
     0 \<le> radius (st a) \<and> 0 \<le> radius (st b)"

lemma dueToMerge_grow:
  assumes "dueToMerge st a b"
  shows "dueToMerge (st(x := (st x)\<lparr>radius := radiusFromArea
            (cellAreaFromRadius (radius (st x)) + cellAreaFromRadius r2)\<rparr>)) a b"
proof -
  define st' where "st' = st(x := (st x)\<lparr>radius := radiusFromArea
            (cellAreaFromRadius (radius (st x)) + cellAreaFromRadius r2)\<rparr>)"
  have g1: "radius (st y) \<le> radius (st' y)" for y
    by (cases "y = x") (simp_all add: st'_def radius_grows)
  have g2: "c_x (st' y) = c_x (st y)" for y
    by (cases "y = x") (simp_all add: st'_def)
  have g3: "c_y (st' y) = c_y (st y)" for y
    by (cases "y = x") (simp_all add: st'_def)
  have g4: "mergeTimer (st' y) = mergeTimer (st y)" for y
    by (cases "y = x") (simp_all add: st'_def)
  from assms have ov: "overlapping (st a) (st b)" and ra: "0 \<le> radius (st a)"
    and rb: "0 \<le> radius (st b)" and ta: "mergeTimer (st a) \<le> 0" and tb: "mergeTimer (st b) \<le> 0"
    by (simp_all add: dueToMerge_def)
  have "overlapping (st' a) (st' b)"
    by (rule overlapping_mono [OF ov g2 g3 g1 g2 g3 g1 ra rb])
  moreover have "0 \<le> radius (st' a)" using ra g1 [of a] by linarith
  moreover have "0 \<le> radius (st' b)" using rb g1 [of b] by linarith
  moreover have "mergeTimer (st' a) \<le> 0" "mergeTimer (st' b) \<le> 0"
    using ta tb by (simp_all only: g4)
  ultimately have "dueToMerge st' a b" by (simp only: dueToMerge_def simp_thms)
  then show ?thesis by (simp only: st'_def)
qed

lemma splice1_removes:
  assumes "distinct cs" and "j < length cs"
  shows "cs ! j \<notin> set (splice1 j cs)"
proof -
  have "cs = take j cs @ cs ! j # drop (Suc j) cs"
    using assms(2) by (rule id_take_nth_drop)
  then have "distinct (take j cs @ cs ! j # drop (Suc j) cs)"
    using assms(1) by simp
  then show ?thesis by (auto simp: splice1_def)
qed

lemma distinct_splice1:
  assumes "distinct cs"
  shows "distinct (splice1 j cs)"
proof -
  have "distinct (take j cs @ drop j cs)" using assms by simp
  then have "set (take j cs) \<inter> set (drop j cs) = {}" by (simp only: distinct_append)
  moreover have "set (drop (Suc j) cs) \<subseteq> set (drop j cs)"
    by (rule set_drop_subset_set_drop) simp
  ultimately have "set (take j cs) \<inter> set (drop (Suc j) cs) = {}" by blast
  then show ?thesis using assms by (simp add: splice1_def)
qed

lemma nth_splice1:
  assumes "k < length cs - 1"
  shows "splice1 j cs ! k = (if k < j then cs ! k else cs ! Suc k)"
proof (cases "k < j")
  case True
  then have "k < length (take j cs)" using assms by simp
  then have "(take j cs @ drop (Suc j) cs) ! k = take j cs ! k"
    by (simp only: nth_append if_True)
  then show ?thesis using True by (simp add: splice1_def)
next
  case False
  then have len: "length (take j cs) = j" using assms by simp
  have "(take j cs @ drop (Suc j) cs) ! k = drop (Suc j) cs ! (k - j)"
    using False by (simp only: nth_append len if_False)
  also have "\<dots> = cs ! (Suc j + (k - j))"
    using assms False by (intro nth_drop) simp
  also have "Suc j + (k - j) = Suc k" using False by simp
  finally show ?thesis using False by (simp add: splice1_def)
qed

lemma length_splice1: "j < length cs \<Longrightarrow> length (splice1 j cs) = length cs - 1"
  by (auto simp: splice1_def)


lemma mergePair_subset: "set (snd (fst (mergePair i j s))) \<subseteq> set (snd s)"
proof (cases s)
  case (Pair st cs)
  show ?thesis
    using splice1_subset [of j cs] by (simp add: Pair mergePair_cases)
qed

lemma mergeLoop_subset: "set (snd (mergeLoop i j s)) \<subseteq> set (snd s)"
proof (induction i j s rule: mergeLoop.induct)
  case (1 i j s)
  show ?case
  proof (cases "i < length (snd s)")
    case False
    then show ?thesis by (subst mergeLoop.simps) simp
  next
    case i: True
    show ?thesis
    proof (cases "j < length (snd s)")
      case False
      then show ?thesis using i "1.IH"(3) by (subst mergeLoop.simps) simp
    next
      case j: True
      define r where "r = mergePair i j s"
      have sub: "set (snd (fst r)) \<subseteq> set (snd s)"
        unfolding r_def by (rule mergePair_subset)
      show ?thesis
      proof (cases "snd r")
        case True
        then have "mergeLoop i j s = mergeLoop i j (fst r)"
          using i j by (subst mergeLoop.simps) (simp add: r_def Let_def)
        then show ?thesis using "1.IH"(1) [OF i j r_def True] sub by auto
      next
        case False
        then have "mergeLoop i j s = mergeLoop i (j + 1) (fst r)"
          using i j by (subst mergeLoop.simps) (simp add: r_def Let_def)
        then show ?thesis using "1.IH"(2) [OF i j r_def False] sub by auto
      qed
    qed
  qed
qed

lemma mergeLoop_resolves:
  "distinct (snd s) \<Longrightarrow> i < j \<Longrightarrow> dueToMerge (fst s) a b \<Longrightarrow>
   pa < pb \<Longrightarrow> pb < length (snd s) \<Longrightarrow> snd s ! pa = a \<Longrightarrow> snd s ! pb = b \<Longrightarrow>
   i < pa \<or> (i = pa \<and> j \<le> pb) \<Longrightarrow>
     \<not> (a \<in> set (snd (mergeLoop i j s)) \<and> b \<in> set (snd (mergeLoop i j s)))"
proof (induction i j s arbitrary: pa pb rule: mergeLoop.induct)
  case (1 i j s)
  obtain st cs where s: "s = (st, cs)" by (cases s)
  have i: "i < length (snd s)" using "1.prems" by auto
  show ?case
  proof (cases "j < length (snd s)")
    case False
    then have ipa: "i < pa" using "1.prems" by auto
    have eq: "mergeLoop i j s = mergeLoop (i + 1) (i + 2) s"
      using i False by (subst mergeLoop.simps) simp
    have pos: "i + 1 < pa \<or> (i + 1 = pa \<and> i + 2 \<le> pb)"
      using ipa "1.prems"(4) by auto
    show ?thesis
      unfolding eq
      by (rule "1.IH"(3) [OF i False "1.prems"(1) _ "1.prems"(3,4,5,6,7) pos]) simp
  next
    case j: True
    define r where "r = mergePair i j s"
    let ?cond = "mergeTimer (st (cs ! i)) \<le> 0 \<and> mergeTimer (st (cs ! j)) \<le> 0 \<and>
         overlapping (st (cs ! i)) (st (cs ! j))"
    show ?thesis
    proof (cases "snd r")
      case False
      then have ncond: "\<not> ?cond" by (auto simp: r_def s mergePair_cases)
      have same: "fst r = s"
        unfolding r_def s mergePair_cases if_not_P [OF ncond] by simp
      have eq: "mergeLoop i j s = mergeLoop i (j + 1) s"
        using i j False same by (subst mergeLoop.simps) (simp add: r_def Let_def)
      have "\<not> (i = pa \<and> j = pb)"
        using ncond "1.prems"(3,6,7) by (auto simp: s dueToMerge_def)
      then have pos: "i < pa \<or> (i = pa \<and> j + 1 \<le> pb)"
        using "1.prems"(8) by auto
      have ij: "i < j + 1" using "1.prems"(2) by simp
      have ih: "\<not> (a \<in> set (snd (mergeLoop i (j + 1) (fst r))) \<and>
                  b \<in> set (snd (mergeLoop i (j + 1) (fst r))))"
        by (rule "1.IH"(2) [OF i j r_def False _ ij _ "1.prems"(4) _ _ _ pos])
          (use "1.prems" same in simp_all)
      show ?thesis unfolding eq using ih same by simp
    next
      case True
      then have cond: ?cond by (auto simp: r_def s mergePair_cases split: if_splits)
      define st' where "st' = st(cs ! i := (st (cs ! i))\<lparr>radius := radiusFromArea
               (cellAreaFromRadius (radius (st (cs ! i))) +
                cellAreaFromRadius (radius (st (cs ! j))))\<rparr>)"
      have fr: "fst r = (st', splice1 j cs)"
        unfolding r_def s mergePair_cases if_P [OF cond] st'_def by simp
      have eq: "mergeLoop i j s = mergeLoop i j (fst r)"
        using i j True by (subst mergeLoop.simps) (simp add: r_def Let_def)
      have jl: "j < length cs" using j by (simp add: s)
      have d: "distinct cs" using "1.prems"(1) by (simp add: s)
      have sub: "set (snd (mergeLoop i j (fst r))) \<subseteq> set (splice1 j cs)"
        using mergeLoop_subset [of i j "fst r"] by (simp add: fr)
      show ?thesis
      proof (cases "j = pa \<or> j = pb")
        case True
        then have "a = cs ! j \<or> b = cs ! j" using "1.prems"(6,7) by (auto simp: s)
        then have "a \<notin> set (splice1 j cs) \<or> b \<notin> set (splice1 j cs)"
          using splice1_removes [OF d jl] by auto
        then show ?thesis unfolding eq using sub by auto
      next
        case False
        define pa' where "pa' = (if j < pa then pa - 1 else pa)"
        define pb' where "pb' = (if j < pb then pb - 1 else pb)"
        have pbl: "pb < length cs" using "1.prems"(5) by (simp add: s)
        have lt: "pa' < pb'" using False "1.prems"(4) by (auto simp: pa'_def pb'_def)
        have len: "pb' < length (snd (fst r))"
          using False pbl jl by (auto simp: fr length_splice1 pb'_def)
        have na: "snd (fst r) ! pa' = a"
          using False "1.prems"(4,6) pbl jl
          by (auto simp: fr s pa'_def nth_splice1)
        have nb: "snd (fst r) ! pb' = b"
          using False "1.prems"(7) pbl jl
          by (auto simp: fr s pb'_def nth_splice1)
        have pos: "i < pa' \<or> (i = pa' \<and> j \<le> pb')"
          using False "1.prems"(2,4,8) by (auto simp: pa'_def pb'_def)
        have due: "dueToMerge (fst (fst r)) a b"
          using "1.prems"(3) dueToMerge_grow [of st a b "cs ! i" "radius (st (cs ! j))"]
          by (simp add: fr s st'_def)
        have dist: "distinct (snd (fst r))"
          using d by (simp add: fr distinct_splice1)
        have ih: "\<not> (a \<in> set (snd (mergeLoop i j (fst r))) \<and>
                    b \<in> set (snd (mergeLoop i j (fst r))))"
          by (rule "1.IH"(1) [OF i j r_def True dist "1.prems"(2) due lt len na nb pos])
        show ?thesis unfolding eq using ih .
      qed
    qed
  qed
qed

definition gatedStore :: "nat \<Rightarrow> cell" where
  "gatedStore =
     (\<lambda>r. if r = 0 then restingCell 0 0 20 (-1)
          else if r = 1 then restingCell 10 0 20 (-1)
          else restingCell 15 0 20 5)"

lemma gatedStore_facts:
  "((2::nat) \<in> set [0, 1, 2] \<and> mergeTimer (gatedStore 2) > 0) \<and>
   (mergeTimer (gatedStore ([0, 1, 2] ! 0)) \<le> 0 \<and> mergeTimer (gatedStore ([0, 1, 2] ! 1)) \<le> 0 \<and>
    (c_x (gatedStore ([0, 1, 2] ! 0)) - c_x (gatedStore ([0, 1, 2] ! 1)))\<^sup>2 +
    (c_y (gatedStore ([0, 1, 2] ! 0)) - c_y (gatedStore ([0, 1, 2] ! 1)))\<^sup>2
       < (radius (gatedStore ([0, 1, 2] ! 0)) + radius (gatedStore ([0, 1, 2] ! 1)))\<^sup>2) \<and>
   (distinct [0, 1, 2 :: nat] \<and> (0::nat) < 1 \<and> 1 < length [0, 1, 2 :: nat] \<and>
    0 \<le> radius (gatedStore ([0, 1, 2] ! 0)) \<and> 0 \<le> radius (gatedStore ([0, 1, 2] ! 1))) \<and>
   (mergeTimer (gatedStore 0) \<le> 0 \<and> mergeTimer (gatedStore 1) \<le> 0 \<and>
    (c_x (gatedStore 0) - c_x (gatedStore 1))\<^sup>2 + (c_y (gatedStore 0) - c_y (gatedStore 1))\<^sup>2
       < (radius (gatedStore 0) + radius (gatedStore 1))\<^sup>2)"
  by (simp add: gatedStore_def restingCell_def)

text \<open>
  C4, as the program has it. (1) Throughout a sweep, a cell whose merge timer is positive
  is neither removed nor grown: it takes part in no merge. (2) When the sweep compares the
  cells at positions \<open>i\<close> and \<open>j\<close> of the live array, both timers are at most 0 and
  the two overlap, it merges them: the cell at \<open>i\<close> gets the radius of the summed
  areas and position \<open>j\<close> is removed from the array. (3) Two cells of the array that
  overlap with both timers at most 0 when the sweep starts never both survive it: they are
  merged with each other unless one of them has been merged away before the sweep reaches
  the pair. (4) For a player with exactly two such cells, the sweep leaves the first cell
  alone in the array, with the summed area.
\<close>

theorem merge_gating:
  "(r \<in> set cs \<and> mergeTimer (st r) > 0 \<longrightarrow>
      r \<in> set (snd (mergeLoop i j (st, cs))) \<and> fst (mergeLoop i j (st, cs)) r = st r)
   \<and>
   (mergeTimer (st (cs ! i)) \<le> 0 \<and> mergeTimer (st (cs ! j)) \<le> 0 \<and>
    (c_x (st (cs ! i)) - c_x (st (cs ! j)))\<^sup>2 + (c_y (st (cs ! i)) - c_y (st (cs ! j)))\<^sup>2
       < (radius (st (cs ! i)) + radius (st (cs ! j)))\<^sup>2 \<longrightarrow>
      mergePair i j (st, cs) =
        ((st(cs ! i := (st (cs ! i))\<lparr>radius := radiusFromArea
               (cellAreaFromRadius (radius (st (cs ! i))) +
                cellAreaFromRadius (radius (st (cs ! j))))\<rparr>),
          take j cs @ drop (Suc j) cs), True))
   \<and>
   (distinct cs \<and> pa < pb \<and> pb < length cs \<and>
    mergeTimer (st (cs ! pa)) \<le> 0 \<and> mergeTimer (st (cs ! pb)) \<le> 0 \<and>
    (c_x (st (cs ! pa)) - c_x (st (cs ! pb)))\<^sup>2 + (c_y (st (cs ! pa)) - c_y (st (cs ! pb)))\<^sup>2
       < (radius (st (cs ! pa)) + radius (st (cs ! pb)))\<^sup>2 \<and>
    0 \<le> radius (st (cs ! pa)) \<and> 0 \<le> radius (st (cs ! pb)) \<longrightarrow>
      \<not> (cs ! pa \<in> set (snd (mergeLoop 0 1 (st, cs))) \<and>
         cs ! pb \<in> set (snd (mergeLoop 0 1 (st, cs)))))
   \<and>
   (mergeTimer (st p) \<le> 0 \<and> mergeTimer (st q) \<le> 0 \<and>
    (c_x (st p) - c_x (st q))\<^sup>2 + (c_y (st p) - c_y (st q))\<^sup>2
       < (radius (st p) + radius (st q))\<^sup>2 \<longrightarrow>
      mergeLoop 0 1 (st, [p, q]) =
        (st(p := (st p)\<lparr>radius := radiusFromArea
               (cellAreaFromRadius (radius (st p)) + cellAreaFromRadius (radius (st q)))\<rparr>), [p]))"
proof -
  have one: "r \<in> set (snd (mergeLoop i j (st, cs))) \<and> fst (mergeLoop i j (st, cs)) r = st r"
    if "r \<in> set cs \<and> mergeTimer (st r) > 0"
    using that mergeLoop_gated [of r "(st, cs)" i j] by simp
  have two: "mergePair i j (st, cs) =
        ((st(cs ! i := (st (cs ! i))\<lparr>radius := radiusFromArea
               (cellAreaFromRadius (radius (st (cs ! i))) +
                cellAreaFromRadius (radius (st (cs ! j))))\<rparr>),
          take j cs @ drop (Suc j) cs), True)"
    if h: "mergeTimer (st (cs ! i)) \<le> 0 \<and> mergeTimer (st (cs ! j)) \<le> 0 \<and>
      (c_x (st (cs ! i)) - c_x (st (cs ! j)))\<^sup>2 + (c_y (st (cs ! i)) - c_y (st (cs ! j)))\<^sup>2
         < (radius (st (cs ! i)) + radius (st (cs ! j)))\<^sup>2"
  proof -
    from h have c: "mergeTimer (st (cs ! i)) \<le> 0 \<and> mergeTimer (st (cs ! j)) \<le> 0 \<and>
         overlapping (st (cs ! i)) (st (cs ! j))"
      by (simp add: overlapping_iff)
    show ?thesis
      unfolding mergePair_cases if_P [OF c] by (simp add: splice1_def)
  qed
  have three: "\<not> (cs ! pa \<in> set (snd (mergeLoop 0 1 (st, cs))) \<and>
         cs ! pb \<in> set (snd (mergeLoop 0 1 (st, cs))))"
    if h: "distinct cs \<and> pa < pb \<and> pb < length cs \<and>
      mergeTimer (st (cs ! pa)) \<le> 0 \<and> mergeTimer (st (cs ! pb)) \<le> 0 \<and>
      (c_x (st (cs ! pa)) - c_x (st (cs ! pb)))\<^sup>2 + (c_y (st (cs ! pa)) - c_y (st (cs ! pb)))\<^sup>2
         < (radius (st (cs ! pa)) + radius (st (cs ! pb)))\<^sup>2 \<and>
      0 \<le> radius (st (cs ! pa)) \<and> 0 \<le> radius (st (cs ! pb))"
  proof -
    from h have due: "dueToMerge (fst (st, cs)) (cs ! pa) (cs ! pb)"
      by (simp add: dueToMerge_def overlapping_iff)
    from h have pos: "0 < pa \<or> (0 = pa \<and> 1 \<le> pb)" by auto
    show ?thesis
      by (rule mergeLoop_resolves [OF _ _ due _ _ _ _ pos]) (use h in simp_all)
  qed
  have four: "mergeLoop 0 1 (st, [p, q]) =
        (st(p := (st p)\<lparr>radius := radiusFromArea
               (cellAreaFromRadius (radius (st p)) + cellAreaFromRadius (radius (st q)))\<rparr>), [p])"
    if "mergeTimer (st p) \<le> 0 \<and> mergeTimer (st q) \<le> 0 \<and>
      (c_x (st p) - c_x (st q))\<^sup>2 + (c_y (st p) - c_y (st q))\<^sup>2
         < (radius (st p) + radius (st q))\<^sup>2"
    using that by (intro mergeLoop_two_cells) (simp_all add: overlapping_iff)
  from one two three four show ?thesis by blast
qed

theorem merge_gating_witness:
  "(((2::nat) \<in> set [0, 1, 2] \<and> mergeTimer (gatedStore 2) > 0) \<and>
    (mergeTimer (gatedStore ([0, 1, 2] ! 0)) \<le> 0 \<and> mergeTimer (gatedStore ([0, 1, 2] ! 1)) \<le> 0 \<and>
     (c_x (gatedStore ([0, 1, 2] ! 0)) - c_x (gatedStore ([0, 1, 2] ! 1)))\<^sup>2 +
     (c_y (gatedStore ([0, 1, 2] ! 0)) - c_y (gatedStore ([0, 1, 2] ! 1)))\<^sup>2
        < (radius (gatedStore ([0, 1, 2] ! 0)) + radius (gatedStore ([0, 1, 2] ! 1)))\<^sup>2) \<and>
    (distinct [0, 1, 2 :: nat] \<and> (0::nat) < 1 \<and> 1 < length [0, 1, 2 :: nat] \<and>
     0 \<le> radius (gatedStore ([0, 1, 2] ! 0)) \<and> 0 \<le> radius (gatedStore ([0, 1, 2] ! 1))) \<and>
    (mergeTimer (gatedStore 0) \<le> 0 \<and> mergeTimer (gatedStore 1) \<le> 0 \<and>
     (c_x (gatedStore 0) - c_x (gatedStore 1))\<^sup>2 + (c_y (gatedStore 0) - c_y (gatedStore 1))\<^sup>2
        < (radius (gatedStore 0) + radius (gatedStore 1))\<^sup>2)) \<and>
   (2 \<in> set (snd (mergeLoop 0 1 (gatedStore, [0, 1, 2]))) \<and>
    fst (mergeLoop 0 1 (gatedStore, [0, 1, 2])) 2 = gatedStore 2) \<and>
   mergePair 0 1 (gatedStore, [0, 1, 2]) =
     ((gatedStore(([0, 1, 2] ! 0) := (gatedStore ([0, 1, 2] ! 0))\<lparr>radius := radiusFromArea
            (cellAreaFromRadius (radius (gatedStore ([0, 1, 2] ! 0))) +
             cellAreaFromRadius (radius (gatedStore ([0, 1, 2] ! 1))))\<rparr>),
       take 1 [0, 1, 2] @ drop (Suc 1) [0, 1, 2]), True) \<and>
   \<not> ([0, 1, 2] ! 0 \<in> set (snd (mergeLoop 0 1 (gatedStore, [0, 1, 2]))) \<and>
      [0, 1, 2] ! 1 \<in> set (snd (mergeLoop 0 1 (gatedStore, [0, 1, 2])))) \<and>
   mergeLoop 0 1 (gatedStore, [0, 1]) =
     (gatedStore(0 := (gatedStore 0)\<lparr>radius := radiusFromArea
            (cellAreaFromRadius (radius (gatedStore 0)) +
             cellAreaFromRadius (radius (gatedStore 1)))\<rparr>), [0])"
  using merge_gating [where r = 2 and cs = "[0, 1, 2]" and st = gatedStore and i = 0 and j = 1
      and pa = 0 and pb = 1 and p = 0 and q = 1] gatedStore_facts
  by blast

text \<open>A chain of three cells of one player, all timers below 0: the first overlaps the
  second, the second overlaps the third, the first does not reach the third even after it
  has grown.\<close>

lemma sqrt_2500: "sqrt 2500 = 50"
  using real_sqrt_abs [of 50] by simp

definition chainStore :: "nat \<Rightarrow> cell" where
  "chainStore =
     (\<lambda>r. if r = 0 then restingCell 0 0 30 (-1)
          else if r = 1 then restingCell 60 0 40 (-1)
          else restingCell 130 0 40 (-1))"

definition chainWorld :: world where
  "chainWorld =
     \<lparr>players = [humanPlayer 1 [0, 1, 2] (0, 0)], foods = sixtyPellets,
      viruses = twentyViruses, cellStore = chainStore, nextCell = 3, nextPlayerId = 2,
      nextFoodId = 61, nextVirusId = 21, cursor = 0\<rparr>"

lemma chain_first_pair:
  "mergePair 0 (Suc 0) (chainStore, [0, Suc 0, 2]) =
     ((chainStore(0 := restingCell 0 0 50 (-1)), [0, 2]), True)"
  by (simp add: mergePair_cases chainStore_def restingCell_def overlapping_def splice1_def
      radiusFromArea_sum sqrt_2500)

lemma chain_second_pair:
  "mergePair 0 (Suc 0) (chainStore(0 := restingCell 0 0 50 (-1)), [0, 2]) =
     ((chainStore(0 := restingCell 0 0 50 (-1)), [0, 2]), False)"
  by (simp add: mergePair_cases chainStore_def restingCell_def overlapping_def)

lemma chain_sweep:
  "mergeLoop 0 (Suc 0) (chainStore, [0, Suc 0, 2]) =
     (chainStore(0 := restingCell 0 0 50 (-1)), [0, 2])"
proof -
  let ?st = "chainStore(0 := restingCell 0 0 50 (-1))"
  have "mergeLoop 0 (Suc 0) (chainStore, [0, Suc 0, 2]) = mergeLoop 0 (Suc 0) (?st, [0, 2])"
    by (rule mergeLoop_merge [OF _ _ chain_first_pair]) simp_all
  also have "\<dots> = mergeLoop 0 (Suc (Suc 0)) (?st, [0, 2])"
    by (rule mergeLoop_skip [OF _ _ chain_second_pair]) simp_all
  also have "\<dots> = mergeLoop (Suc 0) (Suc (Suc 0)) (?st, [0, 2])"
    by (rule mergeLoop_row) simp_all
  also have "\<dots> = mergeLoop (Suc (Suc 0)) (Suc (Suc (Suc 0))) (?st, [0, 2])"
    by (rule mergeLoop_row) simp_all
  also have "\<dots> = (?st, [0, 2])"
    by (rule mergeLoop_done) simp
  finally show ?thesis .
qed

lemma chain_phase:
  "cells (players (mergePhase chainWorld) ! 0) = [0, 2] \<and>
   cellStore (mergePhase chainWorld) = chainStore(0 := restingCell 0 0 50 (-1))"
  by (simp add: mergePhase_def mergePlayer_def chainWorld_def humanPlayer_def chain_sweep)

text \<open>
  C4 as claimed fails on the chain: the second and third cell overlap with both timers at
  most 0 when the pass starts, yet after the pass the third cell is still in the array and
  the second has received no area, because the second was merged into the first before the
  sweep reached the pair.
\<close>

theorem merge_chain_counterexample:
  "cells (players chainWorld ! 0) = [0, 1, 2] \<and>
   mergeTimer (cellStore chainWorld 1) \<le> 0 \<and> mergeTimer (cellStore chainWorld 2) \<le> 0 \<and>
   (c_x (cellStore chainWorld 1) - c_x (cellStore chainWorld 2))\<^sup>2 +
   (c_y (cellStore chainWorld 1) - c_y (cellStore chainWorld 2))\<^sup>2
      < (radius (cellStore chainWorld 1) + radius (cellStore chainWorld 2))\<^sup>2 \<and>
   cells (players (mergePhase chainWorld) ! 0) = [0, 2] \<and>
   radius (cellStore (mergePhase chainWorld) 1) = radius (cellStore chainWorld 1) \<and>
   radius (cellStore (mergePhase chainWorld) 2) = radius (cellStore chainWorld 2)"
  using chain_phase
  by (simp add: chainWorld_def humanPlayer_def chainStore_def restingCell_def)

section \<open>The virus explosion\<close>

lemma piecesOf_bounds: "8 \<le> piecesOf c \<and> piecesOf c \<le> 16"
  by (simp add: piecesOf_def MAX_VIRUS_PIECES_def)

lemma fragment_area:
  "0 < pieces \<Longrightarrow>
     cellAreaFromRadius (radius (fragment c pieces u k)) =
       cellAreaFromRadius (radius c) / real_of_int pieces"
  by (simp add: fragment_def Let_def area_radiusFromArea area_nonneg)

lemma fold_alloc:
  "fold (\<lambda>k s. s(n0 + k := F k)) [0..<n] st x =
     (if n0 \<le> x \<and> x < n0 + n then F (x - n0) else st x)"
  by (induction n) auto

lemma explode_cells:
  "i < length (players w) \<Longrightarrow>
     cells (players (explodeCellIntoMany rnd i r w) ! i) =
       filter (\<lambda>q. q \<noteq> r) (cells (players w ! i)) @
       map (\<lambda>k. nextCell w + k) [0..<nat (piecesOf (cellStore w r))]"
  by (simp add: explodeCellIntoMany_def Let_def)

lemma explode_store:
  "cellStore (explodeCellIntoMany rnd i r w) x =
     (if nextCell w \<le> x \<and> x < nextCell w + nat (piecesOf (cellStore w r))
      then fragment (cellStore w r) (piecesOf (cellStore w r)) (rnd (cursor w + (x - nextCell w)))
             (x - nextCell w)
      else cellStore w x)"
  by (simp add: explodeCellIntoMany_def Let_def fold_alloc)

lemma hitVirus_explodes:
  assumes "touchesVirus (cellStore w r) (viruses w ! j)"
    and "radius (cellStore w r) > v_radius (viruses w ! j) * 1.1"
  shows "players (hitVirus rnd i r j w) = players (explodeCellIntoMany rnd i r w) \<and>
         cellStore (hitVirus rnd i r j w) = cellStore (explodeCellIntoMany rnd i r w)"
  using assms by (simp add: hitVirus_def Let_def)

definition virusWorld :: world where
  "virusWorld =
     \<lparr>players = [humanPlayer 1 [0] (0, 0)], foods = sixtyPellets,
      viruses = twentyViruses[0 := \<lparr>v_id = 1, v_x = 50, v_y = 0, v_radius = VIRUS_RADIUS\<rparr>],
      cellStore = (\<lambda>r. restingCell 0 0 70 0), nextCell = 1, nextPlayerId = 2,
      nextFoodId = 61, nextVirusId = 21, cursor = 0\<rparr>"

lemma virusWorld_hit:
  "(0::nat) < length (players virusWorld) \<and>
   touchesVirus (cellStore virusWorld 0) (viruses virusWorld ! 0) \<and>
   radius (cellStore virusWorld 0) > v_radius (viruses virusWorld ! 0) * 1.1 \<and>
   (0::nat) < nextCell virusWorld"
  by (simp add: virusWorld_def restingCell_def touchesVirus_def VIRUS_RADIUS_def
      twentyViruses_def)

text \<open>
  One detonation. When a cell touches a virus and its radius exceeds 1.1 times the virus
  radius, one step of the virus pass filters the cell out of its owner's array and appends
  \<open>min 16 (max 8 (floor (area / 2000)))\<close> new cells; each of them has the area of the
  cell divided by that number, and their areas add up to the area of the cell. (The cell's
  reference is one in use, below the next free reference; the step does not ask whether the
  owner still holds the cell.)
\<close>

lemma virus_explosion:
  assumes own: "i < length (players w)"
    and touch: "touchesVirus (cellStore w r) (viruses w ! j)"
    and big: "radius (cellStore w r) > v_radius (viruses w ! j) * 1.1"
    and used: "r < nextCell w"
  shows
    "cells (players (hitVirus rnd i r j w) ! i) =
       filter (\<lambda>q. q \<noteq> r) (cells (players w ! i)) @
       map (\<lambda>k. nextCell w + k) [0..<nat (piecesOf (cellStore w r))] \<and>
     r \<notin> set (cells (players (hitVirus rnd i r j w) ! i)) \<and>
     piecesOf (cellStore w r) =
       min 16 (max 8 \<lfloor>cellAreaFromRadius (radius (cellStore w r)) / 2000\<rfloor>) \<and>
     (\<forall>k < nat (piecesOf (cellStore w r)).
        cellAreaFromRadius (radius (cellStore (hitVirus rnd i r j w) (nextCell w + k))) =
          cellAreaFromRadius (radius (cellStore w r)) / real_of_int (piecesOf (cellStore w r))) \<and>
     (\<Sum>k < nat (piecesOf (cellStore w r)).
        cellAreaFromRadius (radius (cellStore (hitVirus rnd i r j w) (nextCell w + k)))) =
       cellAreaFromRadius (radius (cellStore w r))"
proof -
  let ?c = "cellStore w r" and ?w' = "hitVirus rnd i r j w"
  let ?n = "nat (piecesOf ?c)"
  note hv = hitVirus_explodes [OF touch big, of rnd i]
  have pos: "0 < piecesOf ?c" using piecesOf_bounds [of ?c] by simp
  have cs: "cells (players ?w' ! i) =
       filter (\<lambda>q. q \<noteq> r) (cells (players w ! i)) @ map (\<lambda>k. nextCell w + k) [0..<?n]"
    using hv explode_cells [OF own] by simp
  have gone: "r \<notin> set (cells (players ?w' ! i))"
    using used by (auto simp: cs)
  have each: "cellAreaFromRadius (radius (cellStore ?w' (nextCell w + k))) =
          cellAreaFromRadius (radius ?c) / real_of_int (piecesOf ?c)" if "k < ?n" for k
    using that hv fragment_area [OF pos] by (simp add: explode_store)
  have "(\<Sum>k < ?n. cellAreaFromRadius (radius (cellStore ?w' (nextCell w + k)))) =
        (\<Sum>k < ?n. cellAreaFromRadius (radius ?c) / real_of_int (piecesOf ?c))"
    by (rule sum.cong) (simp_all add: each)
  also have "\<dots> = real ?n * (cellAreaFromRadius (radius ?c) / real_of_int (piecesOf ?c))"
    by simp
  also have "\<dots> = cellAreaFromRadius (radius ?c)"
    using pos by simp
  finally have total: "(\<Sum>k < ?n. cellAreaFromRadius (radius (cellStore ?w' (nextCell w + k)))) =
       cellAreaFromRadius (radius ?c)" .
  have pc: "piecesOf ?c = min 16 (max 8 \<lfloor>cellAreaFromRadius (radius ?c) / 2000\<rfloor>)"
    by (simp add: piecesOf_def MAX_VIRUS_PIECES_def)
  from cs gone pc each total show ?thesis by blast
qed

lemma virus_explosion_instance:
  "((0::nat) < length (players virusWorld) \<and>
    touchesVirus (cellStore virusWorld 0) (viruses virusWorld ! 0) \<and>
    radius (cellStore virusWorld 0) > v_radius (viruses virusWorld ! 0) * 1.1 \<and>
    (0::nat) < nextCell virusWorld) \<and>
   cells (players (hitVirus (\<lambda>k. 1 / 2) 0 0 0 virusWorld) ! 0) =
     filter (\<lambda>q. q \<noteq> 0) (cells (players virusWorld ! 0)) @
     map (\<lambda>k. nextCell virusWorld + k) [0..<nat (piecesOf (cellStore virusWorld 0))] \<and>
   0 \<notin> set (cells (players (hitVirus (\<lambda>k. 1 / 2) 0 0 0 virusWorld) ! 0)) \<and>
   (\<Sum>k < nat (piecesOf (cellStore virusWorld 0)).
      cellAreaFromRadius
        (radius (cellStore (hitVirus (\<lambda>k. 1 / 2) 0 0 0 virusWorld) (nextCell virusWorld + k)))) =
     cellAreaFromRadius (radius (cellStore virusWorld 0))"
proof -
  note h = virusWorld_hit
  show ?thesis
    using virus_explosion [where w = virusWorld and i = 0 and r = 0 and j = 0
        and rnd = "\<lambda>k. 1 / 2", OF h [THEN conjunct1] h [THEN conjunct2, THEN conjunct1]
        h [THEN conjunct2, THEN conjunct2, THEN conjunct1]
        h [THEN conjunct2, THEN conjunct2, THEN conjunct2]] h
    by blast
qed

section \<open>The pellet count\<close>

text \<open>What a loop leaves alone, it leaves alone after any number of rounds.\<close>

lemma fold_preserves:
  assumes "\<And>x s. g (f x s) = g s"
  shows "g (fold f xs s) = g s"
  using assms by (induction xs arbitrary: s) simp_all

lemma foods_splitPlayer: "foods (splitPlayer i w) = foods w"
  by (simp add: splitPlayer_def Let_def split: prod.splits)

lemma foods_botThink: "foods (botThink rnd i w) = foods w"
  by (simp add: botThink_def Let_def foods_splitPlayer)

lemma foods_botsPhase: "foods (botsPhase rnd w) = foods w"
  unfolding botsPhase_def by (rule fold_preserves) (simp add: foods_botThink)

lemma foods_movePhase: "foods (movePhase dt w) = foods w"
  by (simp add: movePhase_def)

lemma length_foods_foodMovePhase: "length (foods (foodMovePhase dt w)) = length (foods w)"
  by (simp add: foodMovePhase_def)

lemma foods_eatCell: "foods (eatCell items k other w) = foods w"
  by (simp add: eatCell_def Let_def)

lemma foods_cellPhase: "foods (cellPhase w) = foods w"
  unfolding cellPhase_def Let_def cellEatsCells_def
  by (rule fold_preserves, rule fold_preserves) (simp add: foods_eatCell)

lemma foods_explode: "foods (explodeCellIntoMany rnd i r w) = foods w"
  by (simp add: explodeCellIntoMany_def Let_def)

lemma foods_hitVirus: "foods (hitVirus rnd i r j w) = foods w"
  by (simp add: hitVirus_def Let_def foods_explode)

lemma foods_virusPhase: "foods (virusPhase rnd w) = foods w"
  unfolding virusPhase_def virusPlayer_def
  by (rule fold_preserves, rule fold_preserves, rule fold_preserves) (simp add: foods_hitVirus)

lemma foods_mergePlayer: "foods (mergePlayer i w) = foods w"
  by (simp add: mergePlayer_def Let_def split: prod.splits)

lemma foods_mergePhase: "foods (mergePhase w) = foods w"
  unfolding mergePhase_def by (rule fold_preserves) (simp add: foods_mergePlayer)

lemma length_foods_pushRandomFood:
  "length (foods (pushRandomFood rnd w)) = Suc (length (foods w))"
  by (simp add: pushRandomFood_def createFood_def Let_def)

lemma length_foods_topUpFood:
  "length (foods (topUpFood rnd w)) = max FOOD_COUNT (length (foods w))"
proof (induction rnd w rule: topUpFood.induct)
  case (1 rnd w)
  show ?case
  proof (cases "length (foods w) < FOOD_COUNT")
    case True
    then show ?thesis
      using "1.IH" by (subst topUpFood.simps) (simp add: length_foods_pushRandomFood)
  next
    case False
    then show ?thesis by (subst topUpFood.simps) simp
  qed
qed

lemma length_eatFood: "length (snd (eatFood r k s)) = length (snd s)"
  by (cases s) (simp add: eatFood_def Let_def)

lemma length_cellEatsFood: "length (snd (cellEatsFood qt r s)) = length (snd s)"
  unfolding cellEatsFood_def Let_def
  by (rule fold_preserves) (simp add: length_eatFood)

lemma length_foods_foodPhase:
  "FOOD_COUNT \<le> length (foods (foodPhase rnd w)) \<and>
   length (foods (foodPhase rnd w)) \<le> max FOOD_COUNT (length (foods w))"
proof -
  let ?s = "fold (cellEatsFood (buildFoodTree (foods w))) (concat (map cells (players w)))
              (cellStore w, foods w)"
  have len: "length (snd ?s) = length (foods w)"
    using fold_preserves [where g = "\<lambda>s. length (snd s)"
        and f = "cellEatsFood (buildFoodTree (foods w))", OF length_cellEatsFood]
    by simp
  have "length (filter (\<lambda>f. \<not> dead f) (snd ?s)) \<le> length (foods w)"
    using length_filter_le [of "\<lambda>f. \<not> dead f" "snd ?s"] len by simp
  then show ?thesis
    by (simp add: foodPhase_def Let_def length_foods_topUpFood)
qed

lemma foods_update:
  "foods (update rnd dt w) =
     foods (foodPhase rnd (movePhase dt (foodMovePhase dt (botsPhase rnd w))))"
  by (simp add: update_def foods_mergePhase foods_virusPhase foods_cellPhase)

lemma dead_moveFood: "dead (moveFood dt f) = dead f"
  by (simp add: moveFood_def)

lemma update_no_players:
  assumes "players w = []"
  shows "length (foods (update rnd dt w)) =
           max FOOD_COUNT (length (filter (\<lambda>f. \<not> dead f) (foods w)))"
proof -
  have b: "botsPhase rnd w = w" using assms by (simp add: botsPhase_def)
  have p: "players (movePhase dt (foodMovePhase dt w)) = []"
    using assms by (simp add: movePhase_def foodMovePhase_def)
  have f: "foods (movePhase dt (foodMovePhase dt w)) = map (moveFood dt) (foods w)"
    by (simp add: movePhase_def foodMovePhase_def)
  have "length (filter (\<lambda>f. \<not> dead f) (map (moveFood dt) (foods w))) =
        length (filter (\<lambda>f. \<not> dead f) (foods w))"
    by (simp add: filter_map comp_def dead_moveFood)
  then show ?thesis
    by (simp add: foods_update b foodPhase_def Let_def p f length_foods_topUpFood)
qed

lemma crowdedWorld_pellets:
  "players crowdedWorld = [] \<and> length (foods crowdedWorld) = 61 \<and>
   length (filter (\<lambda>f. \<not> dead f) (foods crowdedWorld)) = 61"
  by (simp add: crowdedWorld_def sixtyPellets_def ejectedPellet_def pelletAt_def comp_def)

lemma fullWorld_pellets: "length (foods fullWorld) \<le> FOOD_COUNT"
  by (simp add: fullWorld_def sixtyPellets_def FOOD_COUNT_def)

text \<open>
  C7, as the program has it. After a tick the number of pellets is never below
  \<open>FOOD_COUNT\<close> and never above the larger of \<open>FOOD_COUNT\<close> and the number before
  the tick; it is exactly \<open>FOOD_COUNT\<close> whenever the tick started with at most
  \<open>FOOD_COUNT\<close> pellets. The top-up loop only adds pellets: pellets beyond the target
  (ejected mass) stay until they are eaten.
\<close>

theorem food_count_after_tick:
  "FOOD_COUNT \<le> length (foods (update rnd dt w)) \<and>
   length (foods (update rnd dt w)) \<le> max FOOD_COUNT (length (foods w)) \<and>
   (length (foods w) \<le> FOOD_COUNT \<longrightarrow> length (foods (update rnd dt w)) = FOOD_COUNT)"
proof -
  let ?w = "movePhase dt (foodMovePhase dt (botsPhase rnd w))"
  have "length (foods ?w) = length (foods w)"
    by (simp add: foods_movePhase length_foods_foodMovePhase foods_botsPhase)
  then show ?thesis
    using length_foods_foodPhase [of rnd ?w] by (auto simp: foods_update)
qed

theorem food_count_after_tick_witness:
  "length (foods fullWorld) \<le> FOOD_COUNT \<and>
   length (foods (update (\<lambda>k. 1 / 2) (1 / 20) fullWorld)) = FOOD_COUNT"
  using food_count_after_tick [of "\<lambda>k. 1 / 2" "1 / 20" fullWorld] fullWorld_pellets
  by blast

text \<open>
  C7 as claimed fails: with sixty pellets, one ejected pellet and nobody left to eat, the
  tick ends with 61 pellets.
\<close>

theorem food_count_counterexample:
  "length (foods crowdedWorld) = 61 \<and>
   length (foods (update (\<lambda>k. 1 / 2) (1 / 20) crowdedWorld)) = 61 \<and>
   length (foods (update (\<lambda>k. 1 / 2) (1 / 20) crowdedWorld)) \<noteq> FOOD_COUNT"
  using crowdedWorld_pellets
  by (simp add: update_no_players FOOD_COUNT_def)

section \<open>The mouse target\<close>






lemma players_topUpFood: "players (topUpFood rnd w) = players w"
proof (induction rnd w rule: topUpFood.induct)
  case (1 rnd w)
  then show ?case
    by (subst topUpFood.simps) (simp add: pushRandomFood_def createFood_def Let_def)
qed

lemma players_foodPhase: "players (foodPhase rnd w) = players w"
  by (simp add: foodPhase_def Let_def players_topUpFood)
























text \<open>The player of \<open>fullWorld\<close> after an input message with direction (1, 0).\<close>

definition aimedWorld :: world where
  "aimedWorld = handleMessage (\<lambda>k. 1 / 2) (Some 1) (Input (Some [1, 0])) fullWorld"


lemma aimedWorld_mouse: "mouseX (players aimedWorld ! 0) = 100 \<and> mouseY (players aimedWorld ! 0) = 0"
  by (simp add: aimedWorld_def handleMessage_def fullWorld_def humanPlayer_def handleInput_def
      Let_def restingCell_def)



section \<open>World containment\<close>

text \<open>The containment of a cell in the world, as the data model states it.\<close>

definition insideWorld :: "cell \<Rightarrow> bool" where
  "insideWorld c \<longleftrightarrow>
     - (WORLD_SIZE / 2) + radius c \<le> c_x c \<and> c_x c \<le> WORLD_SIZE / 2 - radius c \<and>
     - (WORLD_SIZE / 2) + radius c \<le> c_y c \<and> c_y c \<le> WORLD_SIZE / 2 - radius c"

lemma radius_accelerate: "radius (accelerate dt p c) = radius c"
  by (simp add: accelerate_def Let_def)

lemma radius_moveCell: "radius (moveCell dt p c) = radius c"
  by (simp add: moveCell_def Let_def radius_accelerate)

lemma insideWorld_moveCell:
  "radius c \<le> WORLD_SIZE / 2 \<Longrightarrow> insideWorld (moveCell dt p c)"
  by (simp add: insideWorld_def moveCell_def Let_def radius_accelerate)

lemma radius_movePlayer: "radius (movePlayer dt p st q) = radius (st q)"
proof -
  have "radius (fold (\<lambda>r s. s(r := moveCell dt p (s r))) rs st q) = radius (st q)" for rs
    by (induction rs arbitrary: st) (simp_all add: radius_moveCell)
  then show ?thesis by (simp add: movePlayer_def)
qed

lemma insideWorld_movePlayer:
  assumes "radius (st r) \<le> WORLD_SIZE / 2" and "r \<in> set (cells p) \<or> insideWorld (st r)"
  shows "insideWorld (movePlayer dt p st r)"
proof -
  have "insideWorld (fold (\<lambda>r s. s(r := moveCell dt p (s r))) rs st r)"
    if "radius (st r) \<le> WORLD_SIZE / 2" and "r \<in> set rs \<or> insideWorld (st r)" for rs st
    using that
  proof (induction rs arbitrary: st)
    case Nil
    then show ?case by simp
  next
    case (Cons x xs)
    let ?st = "st(x := moveCell dt p (st x))"
    have "radius (?st r) \<le> WORLD_SIZE / 2"
      using Cons.prems(1) by (cases "r = x") (simp_all add: radius_moveCell)
    moreover have "r \<in> set xs \<or> insideWorld (?st r)"
      using Cons.prems by (cases "r = x") (auto simp: insideWorld_moveCell)
    ultimately show ?case using Cons.IH [of ?st] by simp
  qed
  then show ?thesis using assms by (simp add: movePlayer_def)
qed

lemma insideWorld_movePlayers:
  "radius (st r) \<le> WORLD_SIZE / 2 \<Longrightarrow>
   (\<exists>p \<in> set ps. r \<in> set (cells p)) \<or> insideWorld (st r) \<Longrightarrow>
     insideWorld (fold (movePlayer dt) ps st r)"
proof (induction ps arbitrary: st)
  case Nil
  then show ?case by simp
next
  case (Cons p ps)
  let ?st = "movePlayer dt p st"
  have "radius (?st r) \<le> WORLD_SIZE / 2"
    using Cons.prems(1) by (simp add: radius_movePlayer)
  moreover have "(\<exists>q \<in> set ps. r \<in> set (cells q)) \<or> insideWorld (?st r)"
    using Cons.prems insideWorld_movePlayer [of st r p dt] by auto
  ultimately show ?case using Cons.IH [of ?st] by simp
qed

lemma radius_movePlayers: "radius (fold (movePlayer dt) ps st q) = radius (st q)"
  by (induction ps arbitrary: st) (simp_all add: radius_movePlayer)

text \<open>A cell of radius 20 resting against the right wall, on top of a pellet.\<close>

definition wallPellets :: "food list" where
  "wallPellets =
     pelletAt 1 2980 0 # map (\<lambda>n. pelletAt (n + 2) (real n * 100 - 2950) (-2900)) [0..<59]"

definition wallWorld :: world where
  "wallWorld =
     \<lparr>players = [humanPlayer 1 [0] (0, 0)], foods = wallPellets, viruses = twentyViruses,
      cellStore = (\<lambda>r. restingCell 2980 0 20 MERGE_TIME), nextCell = 1, nextPlayerId = 2,
      nextFoodId = 61, nextVirusId = 21, cursor = 0\<rparr>"

lemma wallWorld_cell:
  "humanPlayer 1 [0] (0, 0) \<in> set (players wallWorld) \<and>
   (0::nat) \<in> set (cells (humanPlayer 1 [0] (0, 0))) \<and>
   radius (cellStore wallWorld 0) \<le> WORLD_SIZE / 2"
  by (simp add: wallWorld_def humanPlayer_def restingCell_def WORLD_SIZE_def)

text \<open>
  C6, as the program has it. Right after the movement phase of a tick, every cell of every
  player whose radius is at most half the world size has its centre within
  \<open>[-WORLD_SIZE/2 + radius, WORLD_SIZE/2 - radius]\<close> on both axes; the movement leaves
  the radius as it is. The later phases of the tick do not clamp again.
\<close>

theorem contained_after_movement:
  assumes "p \<in> set (players w)" and "r \<in> set (cells p)"
    and "radius (cellStore w r) \<le> WORLD_SIZE / 2"
  shows "radius (cellStore (movePhase dt w) r) = radius (cellStore w r) \<and>
         - (WORLD_SIZE / 2) + radius (cellStore (movePhase dt w) r) \<le> c_x (cellStore (movePhase dt w) r) \<and>
         c_x (cellStore (movePhase dt w) r) \<le> WORLD_SIZE / 2 - radius (cellStore (movePhase dt w) r) \<and>
         - (WORLD_SIZE / 2) + radius (cellStore (movePhase dt w) r) \<le> c_y (cellStore (movePhase dt w) r) \<and>
         c_y (cellStore (movePhase dt w) r) \<le> WORLD_SIZE / 2 - radius (cellStore (movePhase dt w) r)"
proof -
  have "insideWorld (fold (movePlayer dt) (players w) (cellStore w) r)"
    using assms by (intro insideWorld_movePlayers) auto
  then show ?thesis
    by (simp add: movePhase_def insideWorld_def radius_movePlayers)
qed

theorem contained_after_movement_witness:
  "(humanPlayer 1 [0] (0, 0) \<in> set (players wallWorld) \<and>
    (0::nat) \<in> set (cells (humanPlayer 1 [0] (0, 0))) \<and>
    radius (cellStore wallWorld 0) \<le> WORLD_SIZE / 2) \<and>
   radius (cellStore (movePhase (1 / 20) wallWorld) 0) = radius (cellStore wallWorld 0) \<and>
   - (WORLD_SIZE / 2) + radius (cellStore (movePhase (1 / 20) wallWorld) 0)
     \<le> c_x (cellStore (movePhase (1 / 20) wallWorld) 0) \<and>
   c_x (cellStore (movePhase (1 / 20) wallWorld) 0)
     \<le> WORLD_SIZE / 2 - radius (cellStore (movePhase (1 / 20) wallWorld) 0) \<and>
   - (WORLD_SIZE / 2) + radius (cellStore (movePhase (1 / 20) wallWorld) 0)
     \<le> c_y (cellStore (movePhase (1 / 20) wallWorld) 0) \<and>
   c_y (cellStore (movePhase (1 / 20) wallWorld) 0)
     \<le> WORLD_SIZE / 2 - radius (cellStore (movePhase (1 / 20) wallWorld) 0)"
proof -
  note h = wallWorld_cell
  show ?thesis
    using contained_after_movement [where w = wallWorld and p = "humanPlayer 1 [0] (0, 0)"
        and r = 0 and dt = "1 / 20", OF h [THEN conjunct1] h [THEN conjunct2, THEN conjunct1]
        h [THEN conjunct2, THEN conjunct2]] h
    by blast
qed

text \<open>Phases that leave the world as it is: no bots, a single player in the cell pass,
  no cell touching a virus, no player with two cells.\<close>

lemma fold_idle: "(\<And>x s. x \<in> set xs \<Longrightarrow> P s \<Longrightarrow> f x s = s) \<Longrightarrow> P s \<Longrightarrow> fold f xs s = s"
  by (induction xs) simp_all

lemma botsPhase_no_bots:
  assumes "\<forall>p \<in> set (players w). \<not> isBot p"
  shows "botsPhase rnd w = w"
  unfolding botsPhase_def
  by (rule fold_idle [where P = "\<lambda>v. v = w"]) (use assms in auto)

lemma queryRange_subset: "set (queryRange pos t rg found) \<subseteq> set found \<union> set (allPoints t)"
proof (induction t arbitrary: found)
  case (Leaf b c d m ps)
  show ?case by auto
next
  case (Quad b c d m ps q1 q2 q3 q4)
  let ?f0 = "found @ filter (\<lambda>p. inRange rg (pos p)) ps"
  let ?f1 = "queryRange pos q1 rg ?f0"
  let ?f2 = "queryRange pos q2 rg ?f1"
  let ?f3 = "queryRange pos q3 rg ?f2"
  have "set ?f1 \<subseteq> set ?f0 \<union> set (allPoints q1)" by (rule Quad.IH)
  moreover have "set ?f2 \<subseteq> set ?f1 \<union> set (allPoints q2)" by (rule Quad.IH)
  moreover have "set ?f3 \<subseteq> set ?f2 \<union> set (allPoints q3)" by (rule Quad.IH)
  moreover have "set (queryRange pos q4 rg ?f3) \<subseteq> set ?f3 \<union> set (allPoints q4)" by (rule Quad.IH)
  ultimately show ?case by auto
qed

lemma insertAll_accepted: "set (snd (insertAll pos t objs)) \<subseteq> set objs"
  by (induction objs arbitrary: t) (auto simp: Let_def)

lemma nearby_cells_are_entries:
  "set (queryRange (itemPos items) (buildCellTree items) rg []) \<subseteq> {..<length items}"
proof -
  have "set (allPoints (buildCellTree items)) \<subseteq> set [0..<length items]"
    unfolding buildCellTree_def
    using insertAll_points [of "itemPos items" "newQuadTree worldBox 8 0 8" "[0..<length items]"]
      insertAll_accepted [of "itemPos items" "newQuadTree worldBox 8 0 8" "[0..<length items]"]
    by (simp add: newQuadTree_def)
  then show ?thesis
    using queryRange_subset [of "itemPos items" "buildCellTree items" rg "[]"] by auto
qed

lemma eatCell_same_owner:
  "i_player (items ! k) = i_player (items ! other) \<Longrightarrow> eatCell items k other w = w"
  by (simp add: eatCell_def Let_def)

lemma allCells_single_owner:
  assumes "length (players w) = 1" and "k < length (allCells w)"
  shows "i_player (allCells w ! k) = 0"
proof -
  have "allCells w ! k \<in> set (allCells w)" using assms(2) by simp
  then show ?thesis using assms(1) by (auto simp: allCells_def)
qed

lemma cellPhase_single_player:
  assumes "length (players w) = 1"
  shows "cellPhase w = w"
proof -
  let ?items = "allCells w"
  have step: "cellEatsCells ?items (buildCellTree ?items) k v = v" if "k < length ?items" for k v
    unfolding cellEatsCells_def Let_def
  proof (rule fold_idle [where P = "\<lambda>s. True"])
    fix other s
    assume "other \<in> set (queryRange (itemPos ?items) (buildCellTree ?items)
                           (cellRange (cellStore v (i_cell (?items ! k)))) [])"
    then have "other < length ?items" using nearby_cells_are_entries by blast
    then show "eatCell ?items k other s = s"
      using that assms by (intro eatCell_same_owner) (simp add: allCells_single_owner)
  qed simp
  show ?thesis
    unfolding cellPhase_def Let_def
    by (rule fold_idle [where P = "\<lambda>s. True"]) (simp_all add: step)
qed

lemma hitVirus_miss:
  "\<not> touchesVirus (cellStore w r) (viruses w ! j) \<Longrightarrow> hitVirus rnd i r j w = w"
  by (simp add: hitVirus_def Let_def)

lemma virusPhase_no_contact:
  assumes "\<forall>p \<in> set (players w). \<forall>r \<in> set (cells p). \<forall>v \<in> set (viruses w).
             \<not> touchesVirus (cellStore w r) v"
  shows "virusPhase rnd w = w"
proof -
  have inner: "fold (hitVirus rnd i r) [0..<length (viruses w)] w = w"
    if "i < length (players w)" and "r \<in> set (cells (players w ! i))" for i r
  proof (rule fold_idle [where P = "\<lambda>v. v = w"])
    fix j s
    assume "j \<in> set [0..<length (viruses w)]" and "s = w"
    then have "players w ! i \<in> set (players w)" and "viruses w ! j \<in> set (viruses w)"
      using that by simp_all
    then have "\<not> touchesVirus (cellStore w r) (viruses w ! j)"
      using that(2) assms by blast
    then show "hitVirus rnd i r j s = s"
      using \<open>s = w\<close> by (simp add: hitVirus_miss)
  qed simp
  have player: "virusPlayer rnd i w = w" if "i < length (players w)" for i
    unfolding virusPlayer_def
    by (rule fold_idle [where P = "\<lambda>v. v = w"]) (use that inner in auto)
  show ?thesis
    unfolding virusPhase_def
    by (rule fold_idle [where P = "\<lambda>v. v = w"]) (use player in auto)
qed

lemma mergePhase_single_cells:
  assumes "\<forall>p \<in> set (players w). length (cells p) \<le> 1"
  shows "mergePhase w = w"
  unfolding mergePhase_def
proof (rule fold_idle [where P = "\<lambda>v. v = w"])
  fix i s
  assume "i \<in> set [0..<length (players w)]" and "s = w"
  then show "mergePlayer i s = s"
    using assms by (simp add: mergePlayer_def Let_def)
qed simp

lemma wall_moveCell:
  "moveCell (1 / 20) (humanPlayer 1 [0] (0, 0)) (restingCell 2980 0 20 MERGE_TIME) =
     restingCell 2980 0 20 (199 / 20)"
  by (simp add: moveCell_def accelerate_def Let_def humanPlayer_def restingCell_def hypotOr1_zero
      WORLD_SIZE_def MERGE_TIME_def)

lemma moveFood_static: "\<not> isEjected f \<Longrightarrow> moveFood dt f = f"
  by (simp add: moveFood_def)

lemma wall_foodMove: "map (moveFood dt) wallPellets = wallPellets"
  by (rule map_idI) (auto simp: wallPellets_def pelletAt_def moveFood_static)

definition wallMoved :: world where
  "wallMoved = wallWorld\<lparr>cellStore := (cellStore wallWorld)(0 := restingCell 2980 0 20 (199 / 20))\<rparr>"

lemma wall_moved:
  "movePhase (1 / 20) (foodMovePhase (1 / 20) (botsPhase rnd wallWorld)) = wallMoved"
proof -
  have "botsPhase rnd wallWorld = wallWorld"
    by (rule botsPhase_no_bots) (simp add: wallWorld_def humanPlayer_def)
  moreover have "foodMovePhase (1 / 20) wallWorld = wallWorld"
    by (simp add: foodMovePhase_def wallWorld_def wall_foodMove)
  moreover have "movePhase (1 / 20) wallWorld = wallMoved"
    unfolding movePhase_def wallMoved_def
    using wall_moveCell
    by (simp add: wallWorld_def movePlayer_def humanPlayer_def)
  ultimately show ?thesis by simp
qed

lemma wall_nearby:
  "queryRange (foodPos wallPellets) (buildFoodTree wallPellets)
     (cellRange (restingCell 2980 0 20 (199 / 20))) [] = [0]"
  by code_simp


lemma sqrt_625: "sqrt 625 = 25"
  using real_sqrt_abs [of 25] by simp

lemma frame_topUpFood:
  "cellStore (topUpFood rnd w) = cellStore w \<and> viruses (topUpFood rnd w) = viruses w"
proof (induction rnd w rule: topUpFood.induct)
  case (1 rnd w)
  then show ?case
    by (subst (1 2) topUpFood.simps) (simp add: pushRandomFood_def createFood_def Let_def)
qed

lemma wall_eaten:
  "eatFood 0 0 (cellStore wallMoved, wallPellets) =
     ((cellStore wallMoved)(0 := restingCell 2980 0 25 (199 / 20)),
      wallPellets[0 := (wallPellets ! 0)\<lparr>dead := True\<rparr>])"
  by (simp add: eatFood_def Let_def wallMoved_def wallWorld_def wallPellets_def pelletAt_def
      restingCell_def touchesFood_def FOOD_RADIUS_def radiusFromArea_sum sqrt_625)

lemma wall_fed:
  "cellStore (foodPhase rnd wallMoved) = (cellStore wallMoved)(0 := restingCell 2980 0 25 (199 / 20)) \<and>
   players (foodPhase rnd wallMoved) = players wallWorld \<and>
   viruses (foodPhase rnd wallMoved) = viruses wallWorld"
proof -
  have f: "foods wallMoved = wallPellets" and p: "players wallMoved = [humanPlayer 1 [0] (0, 0)]"
    and c: "cellStore wallMoved 0 = restingCell 2980 0 20 (199 / 20)"
    by (simp_all add: wallMoved_def wallWorld_def)
  have "fold (cellEatsFood (buildFoodTree (foods wallMoved))) (concat (map cells (players wallMoved)))
          (cellStore wallMoved, foods wallMoved) =
        ((cellStore wallMoved)(0 := restingCell 2980 0 25 (199 / 20)),
         wallPellets[0 := (wallPellets ! 0)\<lparr>dead := True\<rparr>])"
    by (simp add: f p humanPlayer_def cellEatsFood_def c wall_nearby wall_eaten)
  then have "cellStore (foodPhase rnd wallMoved) =
               (cellStore wallMoved)(0 := restingCell 2980 0 25 (199 / 20))"
    by (simp add: foodPhase_def Let_def frame_topUpFood)
  moreover have "players (foodPhase rnd wallMoved) = players wallWorld"
    by (simp add: players_foodPhase wallMoved_def)
  moreover have "viruses (foodPhase rnd wallMoved) = viruses wallWorld"
    by (simp add: foodPhase_def Let_def frame_topUpFood wallMoved_def)
  ultimately show ?thesis by blast
qed

lemma wall_viruses_far:
  "v \<in> set twentyViruses \<Longrightarrow> \<not> touchesVirus (restingCell 2980 0 25 (199 / 20)) v"
proof -
  assume "v \<in> set twentyViruses"
  then have v: "v_y v = 2000" "v_radius v = 60"
    by (auto simp: twentyViruses_def VIRUS_RADIUS_def)
  show ?thesis
    apply (simp add: touchesVirus_def Let_def restingCell_def v)
    using zero_le_square [of "2980 - v_x v"] apply linarith
    done
qed

text \<open>
  C6 as claimed fails: the cell of radius 20 at \<open>x = 2980\<close> is inside the bounds before
  the tick and after the movement clamp; the food pass then grows it to radius 25 and
  nothing moves it back, so the tick ends with \<open>x = 2980 > 3000 - 25\<close>.
\<close>

theorem containment_counterexample:
  "cells (players wallWorld ! 0) = [0] \<and>
   c_x (cellStore wallWorld 0) \<le> WORLD_SIZE / 2 - radius (cellStore wallWorld 0) \<and>
   cells (players (update (\<lambda>k. 1 / 2) (1 / 20) wallWorld) ! 0) = [0] \<and>
   c_x (cellStore (update (\<lambda>k. 1 / 2) (1 / 20) wallWorld) 0) = 2980 \<and>
   radius (cellStore (update (\<lambda>k. 1 / 2) (1 / 20) wallWorld) 0) = 25 \<and>
   \<not> c_x (cellStore (update (\<lambda>k. 1 / 2) (1 / 20) wallWorld) 0)
       \<le> WORLD_SIZE / 2 - radius (cellStore (update (\<lambda>k. 1 / 2) (1 / 20) wallWorld) 0)"
proof -
  let ?rnd = "\<lambda>k::nat. 1 / 2 :: real"
  let ?w = "foodPhase ?rnd wallMoved"
  note fed = wall_fed [of ?rnd]
  have pl: "players ?w = [humanPlayer 1 [0] (0, 0)]"
    using fed by (simp add: wallWorld_def)
  have "cellPhase ?w = ?w"
    by (rule cellPhase_single_player) (simp add: pl)
  moreover have "virusPhase ?rnd ?w = ?w"
    by (rule virusPhase_no_contact)
      (use fed in \<open>auto simp: pl humanPlayer_def wallWorld_def wall_viruses_far\<close>)
  moreover have "mergePhase ?w = ?w"
    by (rule mergePhase_single_cells) (simp add: pl humanPlayer_def)
  ultimately have "update ?rnd (1 / 20) wallWorld = ?w"
    by (simp add: update_def wall_moved)
  then show ?thesis
    using fed
    by (simp add: wallWorld_def humanPlayer_def restingCell_def WORLD_SIZE_def)
qed

section \<open>A cell between two viruses\<close>

lemma sum_list_constant:
  "(\<And>x. x \<in> set xs \<Longrightarrow> f x = (c::real)) \<Longrightarrow> sum_list (map f xs) = real (length xs) * c"
  by (induction xs) (simp_all add: algebra_simps)

lemma hitVirus_fields:
  assumes touch: "touchesVirus (cellStore w r) (viruses w ! j)"
    and big: "radius (cellStore w r) > v_radius (viruses w ! j) * 1.1"
  shows "nextCell (hitVirus rnd i r j w) = nextCell w + nat (piecesOf (cellStore w r))"
    and "length (viruses (hitVirus rnd i r j w)) = length (viruses w)"
    and "k \<noteq> j \<Longrightarrow> viruses (hitVirus rnd i r j w) ! k = viruses w ! k"
    and "length (players (hitVirus rnd i r j w)) = length (players w)"
  using assms by (simp_all add: hitVirus_def Let_def explodeCellIntoMany_def)

text \<open>A cell of radius 70 between two viruses, touching both.\<close>

definition doubleVirusWorld :: world where
  "doubleVirusWorld =
     \<lparr>players = [humanPlayer 1 [0] (0, 0)], foods = sixtyPellets,
      viruses = twentyViruses[0 := \<lparr>v_id = 1, v_x = 50, v_y = 0, v_radius = VIRUS_RADIUS\<rparr>,
                              1 := \<lparr>v_id = 2, v_x = -50, v_y = 0, v_radius = VIRUS_RADIUS\<rparr>],
      cellStore = (\<lambda>r. restingCell 0 0 70 0), nextCell = 1, nextPlayerId = 2,
      nextFoodId = 61, nextVirusId = 21, cursor = 0\<rparr>"

definition firstBlast :: world where
  "firstBlast = hitVirus (\<lambda>k. 1 / 2) 0 0 0 doubleVirusWorld"

definition secondBlast :: world where
  "secondBlast = hitVirus (\<lambda>k. 1 / 2) 0 0 1 firstBlast"

lemma doubleVirusWorld_touch:
  "cells (players doubleVirusWorld ! 0) = [0] \<and>
   touchesVirus (cellStore doubleVirusWorld 0) (viruses doubleVirusWorld ! 0) \<and>
   touchesVirus (cellStore doubleVirusWorld 0) (viruses doubleVirusWorld ! 1) \<and>
   radius (cellStore doubleVirusWorld 0) > v_radius (viruses doubleVirusWorld ! 0) * 1.1 \<and>
   radius (cellStore doubleVirusWorld 0) > v_radius (viruses doubleVirusWorld ! 1) * 1.1"
  by (simp add: doubleVirusWorld_def humanPlayer_def restingCell_def touchesVirus_def
      VIRUS_RADIUS_def twentyViruses_def)

lemma firstBlast_state:
  "cells (players firstBlast ! 0) =
     map (\<lambda>k. 1 + k) [0..<nat (piecesOf (restingCell 0 0 70 0))] \<and>
   nextCell firstBlast = 1 + nat (piecesOf (restingCell 0 0 70 0)) \<and>
   cellStore firstBlast 0 = restingCell 0 0 70 0 \<and>
   viruses firstBlast ! 1 = viruses doubleVirusWorld ! 1 \<and>
   length (players firstBlast) = 1 \<and> length (viruses firstBlast) = 20"
proof -
  note t = doubleVirusWorld_touch
  have touch: "touchesVirus (cellStore doubleVirusWorld 0) (viruses doubleVirusWorld ! 0)"
    and big: "radius (cellStore doubleVirusWorld 0) > v_radius (viruses doubleVirusWorld ! 0) * 1.1"
    using t by simp_all
  have c0: "cellStore doubleVirusWorld 0 = restingCell 0 0 70 0"
    and nc: "nextCell doubleVirusWorld = 1"
    and pl: "players doubleVirusWorld = [humanPlayer 1 [0] (0, 0)]"
    and lv: "length (viruses doubleVirusWorld) = 20"
    by (simp_all add: doubleVirusWorld_def twentyViruses_def)
  have hv: "players firstBlast = players (explodeCellIntoMany (\<lambda>k. 1 / 2) 0 0 doubleVirusWorld)"
    "cellStore firstBlast = cellStore (explodeCellIntoMany (\<lambda>k. 1 / 2) 0 0 doubleVirusWorld)"
    using hitVirus_explodes [OF touch big, of "\<lambda>k. 1 / 2" 0] by (simp_all add: firstBlast_def)
  have "cells (players firstBlast ! 0) =
     map (\<lambda>k. 1 + k) [0..<nat (piecesOf (restingCell 0 0 70 0))]"
    using explode_cells [of 0 doubleVirusWorld "\<lambda>k. 1 / 2" 0]
    by (simp add: hv pl c0 nc humanPlayer_def)
  moreover have "nextCell firstBlast = 1 + nat (piecesOf (restingCell 0 0 70 0))"
    using hitVirus_fields(1) [OF touch big, of "\<lambda>k. 1 / 2" 0] by (simp add: firstBlast_def c0 nc)
  moreover have "cellStore firstBlast 0 = restingCell 0 0 70 0"
    by (simp add: hv explode_store nc c0)
  moreover have "viruses firstBlast ! 1 = viruses doubleVirusWorld ! 1"
    using hitVirus_fields(3) [OF touch big, of 1 "\<lambda>k. 1 / 2" 0] by (simp add: firstBlast_def)
  moreover have "length (players firstBlast) = 1"
    using hitVirus_fields(4) [OF touch big, of "\<lambda>k. 1 / 2" 0] by (simp add: firstBlast_def pl)
  moreover have "length (viruses firstBlast) = 20"
    using hitVirus_fields(2) [OF touch big, of "\<lambda>k. 1 / 2" 0] by (simp add: firstBlast_def lv)
  ultimately show ?thesis by blast
qed


lemma secondBlast_state:
  "cells (players secondBlast ! 0) =
     map (\<lambda>k. 1 + k) [0..<nat (piecesOf (restingCell 0 0 70 0))] @
     map (\<lambda>k. 1 + nat (piecesOf (restingCell 0 0 70 0)) + k)
       [0..<nat (piecesOf (restingCell 0 0 70 0))] \<and>
   cellStore secondBlast 0 = restingCell 0 0 70 0 \<and>
   (\<forall>k \<ge> 2. viruses secondBlast ! k = viruses doubleVirusWorld ! k) \<and>
   length (players secondBlast) = 1 \<and> length (viruses secondBlast) = 20"
proof -
  let ?n = "nat (piecesOf (restingCell 0 0 70 0))"
  note f = firstBlast_state and t = doubleVirusWorld_touch
  have c0: "cellStore doubleVirusWorld 0 = restingCell 0 0 70 0"
    by (simp add: doubleVirusWorld_def)
  have touch: "touchesVirus (cellStore firstBlast 0) (viruses firstBlast ! 1)"
    and big: "radius (cellStore firstBlast 0) > v_radius (viruses firstBlast ! 1) * 1.1"
    using f t c0 by simp_all
  have hv: "players secondBlast = players (explodeCellIntoMany (\<lambda>k. 1 / 2) 0 0 firstBlast)"
    "cellStore secondBlast = cellStore (explodeCellIntoMany (\<lambda>k. 1 / 2) 0 0 firstBlast)"
    using hitVirus_explodes [OF touch big, of "\<lambda>k. 1 / 2" 0] by (simp_all add: secondBlast_def)
  have keep: "filter (\<lambda>q. q \<noteq> 0) (map (\<lambda>k. 1 + k) [0..<?n]) = map (\<lambda>k. 1 + k) [0..<?n]"
    by (rule filter_True) auto
  have "cells (players secondBlast ! 0) =
          map (\<lambda>k. 1 + k) [0..<?n] @ map (\<lambda>k. 1 + ?n + k) [0..<?n]"
    using explode_cells [of 0 firstBlast "\<lambda>k. 1 / 2" 0] f
    by (simp add: hv keep)
  moreover have "cellStore secondBlast 0 = restingCell 0 0 70 0"
    using f by (simp add: hv explode_store)
  moreover have "viruses secondBlast ! k = viruses doubleVirusWorld ! k" if "k \<ge> 2" for k
  proof -
    have "viruses secondBlast ! k = viruses firstBlast ! k"
      using hitVirus_fields(3) [OF touch big, of k "\<lambda>k. 1 / 2" 0] that
      by (simp add: secondBlast_def)
    also have "\<dots> = viruses doubleVirusWorld ! k"
      using hitVirus_fields(3) [of doubleVirusWorld 0 0 k "\<lambda>k. 1 / 2" 0] t that
      by (simp add: firstBlast_def)
    finally show ?thesis .
  qed
  moreover have "length (players secondBlast) = 1"
    using hitVirus_fields(4) [OF touch big, of "\<lambda>k. 1 / 2" 0] f by (simp add: secondBlast_def)
  moreover have "length (viruses secondBlast) = 20"
    using hitVirus_fields(2) [OF touch big, of "\<lambda>k. 1 / 2" 0] f by (simp add: secondBlast_def)
  ultimately show ?thesis by blast
qed

lemma secondBlast_areas:
  assumes "r \<in> set (cells (players secondBlast ! 0))"
  shows "cellAreaFromRadius (radius (cellStore secondBlast r)) =
           cellAreaFromRadius 70 / real_of_int (piecesOf (restingCell 0 0 70 0))"
proof -
  let ?c = "restingCell 0 0 70 0"
  let ?n = "nat (piecesOf ?c)"
  note f = firstBlast_state and t = doubleVirusWorld_touch
  have pos: "0 < piecesOf ?c" using piecesOf_bounds [of ?c] by simp
  have c0: "cellStore doubleVirusWorld 0 = ?c" and nc: "nextCell doubleVirusWorld = 1"
    by (simp_all add: doubleVirusWorld_def)
  have touch0: "touchesVirus (cellStore doubleVirusWorld 0) (viruses doubleVirusWorld ! 0)"
    and big0: "radius (cellStore doubleVirusWorld 0) > v_radius (viruses doubleVirusWorld ! 0) * 1.1"
    using t by simp_all
  have touch1: "touchesVirus (cellStore firstBlast 0) (viruses firstBlast ! 1)"
    and big1: "radius (cellStore firstBlast 0) > v_radius (viruses firstBlast ! 1) * 1.1"
    using f t c0 by simp_all
  have s1: "cellStore firstBlast = cellStore (explodeCellIntoMany (\<lambda>k. 1 / 2) 0 0 doubleVirusWorld)"
    using hitVirus_explodes [OF touch0 big0, of "\<lambda>k. 1 / 2" 0] by (simp add: firstBlast_def)
  have s2: "cellStore secondBlast = cellStore (explodeCellIntoMany (\<lambda>k. 1 / 2) 0 0 firstBlast)"
    using hitVirus_explodes [OF touch1 big1, of "\<lambda>k. 1 / 2" 0] by (simp add: secondBlast_def)
  have frag: "cellAreaFromRadius (radius (fragment ?c (piecesOf ?c) u k)) =
                cellAreaFromRadius 70 / real_of_int (piecesOf ?c)" for u k
    using fragment_area [OF pos, of ?c u k] by (simp add: restingCell_def)
  have "r \<in> (\<lambda>k. 1 + k) ` {0..<?n} \<union> (\<lambda>k. 1 + ?n + k) ` {0..<?n}"
    using assms secondBlast_state by (simp del: One_nat_def add_Suc)
  then have "(1 \<le> r \<and> r < 1 + ?n) \<or> (1 + ?n \<le> r \<and> r < 1 + ?n + ?n)"
    by auto
  then show ?thesis
  proof
    assume a: "1 \<le> r \<and> r < 1 + ?n"
    then have "cellStore secondBlast r = cellStore firstBlast r"
      using f by (simp add: s2 explode_store)
    also have "\<dots> = fragment ?c (piecesOf ?c) (1 / 2) (r - 1)"
      using a by (simp add: s1 explode_store nc c0)
    finally show ?thesis by (simp only: frag)
  next
    assume b: "1 + ?n \<le> r \<and> r < 1 + ?n + ?n"
    then have "cellStore secondBlast r = fragment ?c (piecesOf ?c) (1 / 2) (r - (1 + ?n))"
      using f by (simp add: s2 explode_store)
    then show ?thesis by (simp only: frag)
  qed
qed

lemma far_viruses:
  "2 \<le> k \<Longrightarrow> k < 20 \<Longrightarrow> \<not> touchesVirus (restingCell 0 0 70 0) (viruses doubleVirusWorld ! k)"
proof -
  assume k: "2 \<le> k" "k < 20"
  then have "viruses doubleVirusWorld ! k =
      \<lparr>v_id = Suc k, v_x = real k * 300 - 2850, v_y = 2000, v_radius = VIRUS_RADIUS\<rparr>"
    by (simp add: doubleVirusWorld_def twentyViruses_def)
  then show ?thesis
    apply (simp add: touchesVirus_def Let_def restingCell_def VIRUS_RADIUS_def)
    using zero_le_square [of "2850 - real k * 300"] apply linarith
    done
qed

lemma virusPhase_double:
  "virusPhase (\<lambda>k. 1 / 2) doubleVirusWorld = secondBlast"
proof -
  let ?rnd = "\<lambda>k::nat. 1 / 2 :: real"
  have pl: "players doubleVirusWorld = [humanPlayer 1 [0] (0, 0)]"
    and lv: "length (viruses doubleVirusWorld) = 20"
    by (simp_all add: doubleVirusWorld_def twentyViruses_def)
  have upt: "[0..<20] = 0 # 1 # [2..<20]"
    by (simp add: upt_conv_Cons)
  have rest: "fold (hitVirus ?rnd 0 0) [2..<20] secondBlast = secondBlast"
  proof (rule fold_idle [where P = "\<lambda>s. s = secondBlast"])
    fix k s
    assume "k \<in> set [2..<20]" and s: "s = secondBlast"
    then have "k \<in> {2..<20}" by (simp only: set_upt)
    then have k: "2 \<le> k" "k < 20" by (simp_all only: atLeastLessThan_iff)
    have "\<not> touchesVirus (cellStore secondBlast 0) (viruses secondBlast ! k)"
      using secondBlast_state far_viruses [OF k] k(1) by simp
    then show "hitVirus ?rnd 0 0 k s = s" unfolding s by (rule hitVirus_miss)
  qed simp
  have "virusPhase ?rnd doubleVirusWorld = fold (hitVirus ?rnd 0 0) [0..<20] doubleVirusWorld"
    by (simp add: virusPhase_def virusPlayer_def pl humanPlayer_def lv)
  also have "\<dots> = fold (hitVirus ?rnd 0 0) [2..<20] secondBlast"
    by (simp add: upt firstBlast_def secondBlast_def)
  finally show ?thesis using rest by simp
qed

text \<open>
  C8 fails on the program. The loop over the viruses does not stop after
  \<^verbatim>\<open>explodeCellIntoMany\<close>: it goes on testing the same cell object, which still has its
  radius and position, against the remaining viruses. A cell of radius 70 that touches two
  viruses is therefore exploded twice in one virus pass: the player ends the pass with
  twice \<open>pieces\<close> fragments, whose areas add up to twice the area of the cell, instead of
  \<open>pieces\<close> fragments with the area of the cell.
\<close>

theorem double_explosion:
  "cells (players doubleVirusWorld ! 0) = [0] \<and>
   touchesVirus (cellStore doubleVirusWorld 0) (viruses doubleVirusWorld ! 0) \<and>
   touchesVirus (cellStore doubleVirusWorld 0) (viruses doubleVirusWorld ! 1) \<and>
   radius (cellStore doubleVirusWorld 0) > v_radius (viruses doubleVirusWorld ! 0) * 1.1 \<and>
   radius (cellStore doubleVirusWorld 0) > v_radius (viruses doubleVirusWorld ! 1) * 1.1 \<and>
   length (cells (players (virusPhase (\<lambda>k. 1 / 2) doubleVirusWorld) ! 0)) =
     2 * nat (piecesOf (cellStore doubleVirusWorld 0)) \<and>
   length (cells (players (virusPhase (\<lambda>k. 1 / 2) doubleVirusWorld) ! 0)) \<noteq>
     nat (piecesOf (cellStore doubleVirusWorld 0)) \<and>
   sum_list (map (\<lambda>r. cellAreaFromRadius
                        (radius (cellStore (virusPhase (\<lambda>k. 1 / 2) doubleVirusWorld) r)))
               (cells (players (virusPhase (\<lambda>k. 1 / 2) doubleVirusWorld) ! 0))) =
     2 * cellAreaFromRadius (radius (cellStore doubleVirusWorld 0)) \<and>
   2 * cellAreaFromRadius (radius (cellStore doubleVirusWorld 0)) \<noteq>
     cellAreaFromRadius (radius (cellStore doubleVirusWorld 0))"
proof -
  let ?c = "restingCell 0 0 70 0"
  let ?n = "nat (piecesOf ?c)"
  have c0: "cellStore doubleVirusWorld 0 = ?c" by (simp add: doubleVirusWorld_def)
  have pos: "0 < piecesOf ?c" using piecesOf_bounds [of ?c] by simp
  have len: "length (cells (players secondBlast ! 0)) = 2 * ?n"
    using secondBlast_state by simp
  have "sum_list (map (\<lambda>r. cellAreaFromRadius (radius (cellStore secondBlast r)))
               (cells (players secondBlast ! 0))) =
        real (length (cells (players secondBlast ! 0))) *
          (cellAreaFromRadius 70 / real_of_int (piecesOf ?c))"
    by (rule sum_list_constant) (rule secondBlast_areas)
  also have "\<dots> = 2 * cellAreaFromRadius 70"
    using pos by (simp add: len)
  finally have total: "sum_list (map (\<lambda>r. cellAreaFromRadius (radius (cellStore secondBlast r)))
               (cells (players secondBlast ! 0))) = 2 * cellAreaFromRadius 70" .
  have ne: "2 * cellAreaFromRadius 70 \<noteq> cellAreaFromRadius 70"
    by (simp add: cellAreaFromRadius_def)
  have len_ne: "2 * ?n \<noteq> ?n" using pos by simp
  show ?thesis
    using doubleVirusWorld_touch len total ne len_ne
    by (simp add: virusPhase_double c0 restingCell_def)
qed

end
